theory Spec2Isabelle
  imports Main
begin

section \<open>Iterwriter: an aligned status-line formatter\<close>

text \<open>
  A shallow embedding of \<^verbatim>\<open>iterwrite/iterwriter.py\<close>. Python strings are \<open>string\<close>
  (lists of characters), the dictionaries of an \<^verbatim>\<open>Iterwriter\<close> are maps, and every
  exception the program can raise is a value of the type \<open>error\<close>. Widths and
  precisions are the values of \<^verbatim>\<open>int\<close> on a run of digits or of \<^verbatim>\<open>len\<close>, so they are
  natural numbers.
\<close>

subsection \<open>Errors\<close>

datatype pyexc = ValueError | NotImplementedError | IndexError | KeyError | HostException

datatype error =
    NotString
  | NoPattern
  | MultiplePatterns
  | UnsupportedType
  | PrecisionOnNonFloat
  | MissingFields "string set"
  | UnnamedFieldsUnsupported
  | EmptyPatternIndex
  | UnknownName string
  | HostFormatError

text \<open>
  The Python exception class behind each kind. \<open>EmptyPatternIndex\<close> is the \<^verbatim>\<open>IndexError\<close>
  of \<^verbatim>\<open>pattern[-1]\<close> on an empty pattern, \<open>UnknownName\<close> the \<^verbatim>\<open>KeyError\<close> of a dictionary
  lookup, \<open>HostFormatError\<close> an exception raised inside \<^verbatim>\<open>str.format\<close>.
\<close>

fun exception_of :: "error \<Rightarrow> pyexc" where
  "exception_of NotString = ValueError"
| "exception_of NoPattern = ValueError"
| "exception_of MultiplePatterns = NotImplementedError"
| "exception_of UnsupportedType = NotImplementedError"
| "exception_of PrecisionOnNonFloat = ValueError"
| "exception_of (MissingFields ms) = ValueError"
| "exception_of UnnamedFieldsUnsupported = NotImplementedError"
| "exception_of EmptyPatternIndex = IndexError"
| "exception_of (UnknownName n) = KeyError"
| "exception_of HostFormatError = HostException"

subsection \<open>Decimal digits: \<^verbatim>\<open>str\<close> and \<^verbatim>\<open>int\<close> on non-negative integers\<close>

definition is_digit :: "char \<Rightarrow> bool" where
  "is_digit c = (c \<in> set ''0123456789'')"

definition digit_char :: "nat \<Rightarrow> char" where
  "digit_char d = ''0123456789'' ! d"

definition digit_val :: "char \<Rightarrow> nat" where
  "digit_val c = length (takeWhile (\<lambda>d. d \<noteq> c) ''0123456789'')"

fun str_nat :: "nat \<Rightarrow> string" where
  "str_nat n =
     (if n < 10 then [digit_char n] else str_nat (n div 10) @ [digit_char (n mod 10)])"

declare str_nat.simps [simp del]

definition str_int :: "int \<Rightarrow> string" where
  "str_int i = (if i < 0 then CHR ''-'' # str_nat (nat (- i)) else str_nat (nat i))"

definition int_of_digits :: "string \<Rightarrow> nat" where
  "int_of_digits s = foldl (\<lambda>a c. 10 * a + digit_val c) 0 s"

subsection \<open>The regular expressions\<close>

text \<open>
  \<^verbatim>\<open>PATTERN_REGEX = r"\{([^{}]*)\}"\<close>. \<open>match_pattern s\<close> matches it at the start of
  \<open>s\<close>: an opening brace, the longest run of characters that are not braces, a closing
  brace. It returns the group and the text after the match.
\<close>

definition is_brace :: "char \<Rightarrow> bool" where
  "is_brace c = (c = CHR ''{'' \<or> c = CHR ''}'')"

definition match_pattern :: "string \<Rightarrow> (string \<times> string) option" where
  "match_pattern s =
     (case s of
        [] \<Rightarrow> None
      | c # cs \<Rightarrow>
          if c = CHR ''{'' then
            (case dropWhile (\<lambda>x. \<not> is_brace x) cs of
               [] \<Rightarrow> None
             | d # rest \<Rightarrow>
                 if d = CHR ''}'' then Some (takeWhile (\<lambda>x. \<not> is_brace x) cs, rest)
                 else None)
          else None)"

lemma match_pattern_shorter: "match_pattern s = Some (p, rest) \<Longrightarrow> length rest < length s"
proof -
  assume m: "match_pattern s = Some (p, rest)"
  then obtain c cs d where s: "s = c # cs" and d: "dropWhile (\<lambda>x. \<not> is_brace x) cs = d # rest"
    by (auto simp: match_pattern_def split: list.splits if_splits)
  have "length (dropWhile (\<lambda>x. \<not> is_brace x) cs) \<le> length cs"
    by (rule length_dropWhile_le)
  with s d show ?thesis by simp
qed

text \<open>
  \<^verbatim>\<open>re.findall(PATTERN_REGEX, message)\<close>: the groups of the matches, leftmost first, the
  search going on after each match.
\<close>

function findall_pattern :: "string \<Rightarrow> string list" where
  "findall_pattern [] = []"
| "findall_pattern (c # cs) =
     (case match_pattern (c # cs) of
        Some (p, rest) \<Rightarrow> p # findall_pattern rest
      | None \<Rightarrow> findall_pattern cs)"
  by pat_completeness auto
termination
  by (relation "measure length") (auto dest: match_pattern_shorter)

text \<open>\<^verbatim>\<open>re.sub(PATTERN_REGEX, "{}", message)\<close>: every match replaced by \<^verbatim>\<open>{}\<close>.\<close>

function sub_pattern :: "string \<Rightarrow> string" where
  "sub_pattern [] = []"
| "sub_pattern (c # cs) =
     (case match_pattern (c # cs) of
        Some (p, rest) \<Rightarrow> ''{}'' @ sub_pattern rest
      | None \<Rightarrow> c # sub_pattern cs)"
  by pat_completeness auto
termination
  by (relation "measure length") (auto dest: match_pattern_shorter)

text \<open>
  \<^verbatim>\<open>re.findall(r":([0-9]+)", pattern)\<close> and \<^verbatim>\<open>re.findall(r"\.([0-9]+)", pattern)\<close>: the
  runs of digits that follow the character \<open>k\<close>.
\<close>

function findall_number :: "char \<Rightarrow> string \<Rightarrow> string list" where
  "findall_number k [] = []"
| "findall_number k (c # cs) =
     (if c = k \<and> takeWhile is_digit cs \<noteq> []
      then takeWhile is_digit cs # findall_number k (dropWhile is_digit cs)
      else findall_number k cs)"
  by pat_completeness auto
termination
  by (relation "measure (\<lambda>(k, s). length s)") (auto simp: length_dropWhile_le less_Suc_eq_le)

subsection \<open>Patterns\<close>

text \<open>
  \<^verbatim>\<open>decompose_pattern(pattern)\<close>. \<^verbatim>\<open>pattern[-1]\<close> raises on the empty string. The base
  is a string of one character.
\<close>

definition decompose_pattern :: "string \<Rightarrow> error + (string \<times> nat option \<times> nat option)" where
  "decompose_pattern pattern =
     (if pattern = [] then Inl EmptyPatternIndex
      else
        let base = [last pattern];
            pad_length_all = findall_number (CHR '':'') pattern;
            decimal_all = findall_number (CHR ''.'') pattern;
            pad_length = (case pad_length_all of [] \<Rightarrow> None | x # xs \<Rightarrow> Some (int_of_digits x));
            decimal = (case decimal_all of [] \<Rightarrow> None | x # xs \<Rightarrow> Some (int_of_digits x))
        in Inr (base, pad_length, decimal))"

text \<open>\<^verbatim>\<open>compose_pattern(base, pad_length, decimal)\<close>, each argument optional.\<close>

definition compose_pattern :: "string option \<Rightarrow> nat option \<Rightarrow> nat option \<Rightarrow> string" where
  "compose_pattern base pad_length decimal =
     (let base = (case base of None \<Rightarrow> [] | Some b \<Rightarrow> b);
          pad_length = (case pad_length of None \<Rightarrow> [] | Some n \<Rightarrow> str_nat n)
      in case decimal of
           None \<Rightarrow> ''{:'' @ pad_length @ base @ ''}''
         | Some d \<Rightarrow> ''{:'' @ pad_length @ ''.'' @ str_nat d @ base @ ''}'')"

subsection \<open>Validation\<close>

text \<open>The argument of \<^verbatim>\<open>validate_message\<close> is any Python object: a string or not.\<close>

datatype pyobj = PyStr string | PyOther

definition validate_message :: "pyobj \<Rightarrow> error + bool" where
  "validate_message message =
     (case message of
        PyOther \<Rightarrow> Inl NotString
      | PyStr m \<Rightarrow>
          let patterns = findall_pattern m in
          if length patterns < 1 then Inl NoPattern
          else if length patterns > 1 then Inl MultiplePatterns
          else
            (case decompose_pattern (hd patterns) of
               Inl e \<Rightarrow> Inl e
             | Inr (base, pad_length, decimals) \<Rightarrow>
                 if base \<notin> {''d'', ''f''} then Inl UnsupportedType
                 else if decimals \<noteq> None \<and> base \<noteq> ''f'' then Inl PrecisionOnNonFloat
                 else Inr True))"

subsection \<open>The host's \<^verbatim>\<open>str.format\<close>\<close>

text \<open>
  The values handed to \<^verbatim>\<open>format\<close> are numbers: Python integers, and floats of a type
  \<open>'f\<close> left open. The host's fixed-point rendering (type code \<^verbatim>\<open>f\<close>) of a number at
  an optional precision, before any padding, is the parameter \<open>R\<close> of every function
  that renders: \<open>R precision value\<close> is the text, or \<open>None\<close> where the host raises (an
  integer too large for a float). Nothing is assumed about \<open>R\<close>.
\<close>

datatype 'f pyval = IntV int | FloatV 'f

type_synonym 'f frender = "nat option \<Rightarrow> 'f pyval \<Rightarrow> string option"

text \<open>
  Padding a rendered number to a minimum width: spaces on the left, or, under the zero
  flag, zeros after the sign.
\<close>

definition pad_number :: "bool \<Rightarrow> nat \<Rightarrow> string \<Rightarrow> string" where
  "pad_number zero width s =
     (if zero then
        (case s of
           [] \<Rightarrow> replicate width (CHR ''0'')
         | c # r \<Rightarrow>
             if c = CHR ''-'' then c # replicate (width - length s) (CHR ''0'') @ r
             else replicate (width - length s) (CHR ''0'') @ s)
      else replicate (width - length s) (CHR '' '') @ s)"

text \<open>
  \<^verbatim>\<open>format(value, spec)\<close> for a format specification of the shape
  \<^verbatim>\<open>[0][width][.precision]type\<close>, which is the shape \<open>compose_pattern\<close> writes:
  \<open>parse_spec\<close> reads the zero flag, the width (none is width 0), the precision and the
  type code; a dot with no digits after it is an error of the host. The
  type codes \<^verbatim>\<open>d\<close> and \<^verbatim>\<open>f\<close> are the ones \<open>validate_message\<close> lets through: \<^verbatim>\<open>d\<close>
  takes an integer and no precision, \<^verbatim>\<open>f\<close> takes any number. A specification with
  another type code is outside what is modelled and is answered with
  \<open>HostFormatError\<close>; no field stored by \<open>add_message\<close> has one (\<open>add_message_wf\<close>
  and \<open>init_wf\<close> below). Widths are unbounded: the limits of the host on the size of a
  string are not modelled.
\<close>

definition parse_spec :: "string \<Rightarrow> (bool \<times> nat \<times> nat option \<times> string) option" where
  "parse_spec spec =
     (let zero = (spec \<noteq> [] \<and> hd spec = CHR ''0'');
          s1 = (if zero then tl spec else spec);
          wd = takeWhile is_digit s1;
          s2 = dropWhile is_digit s1;
          width = (if wd = [] then 0 else int_of_digits wd)
      in if s2 \<noteq> [] \<and> hd s2 = CHR ''.'' then
           (let pd = takeWhile is_digit (tl s2) in
            if pd = [] then None
            else Some (zero, width, Some (int_of_digits pd), dropWhile is_digit (tl s2)))
         else Some (zero, width, None, s2))"

definition format_spec :: "'f frender \<Rightarrow> string \<Rightarrow> 'f pyval \<Rightarrow> error + string" where
  "format_spec R spec v =
     (case parse_spec spec of
        None \<Rightarrow> Inl HostFormatError
      | Some (zero, width, prec, tc) \<Rightarrow>
          if tc = ''d'' then
            (case v of
               IntV i \<Rightarrow> if prec \<noteq> None then Inl HostFormatError
                         else Inr (pad_number zero width (str_int i))
             | FloatV x \<Rightarrow> Inl HostFormatError)
          else if tc = ''f'' then
            (case R prec v of
               None \<Rightarrow> Inl HostFormatError
             | Some s \<Rightarrow> Inr (pad_number zero width s))
          else Inl HostFormatError)"

text \<open>
  \<^verbatim>\<open>pattern.format(value)\<close> for a pattern that is one replacement field
  \<^verbatim>\<open>{:spec}\<close> and nothing else.
\<close>

definition format_value :: "'f frender \<Rightarrow> string \<Rightarrow> 'f pyval \<Rightarrow> error + string" where
  "format_value R pattern v =
     (if 3 \<le> length pattern \<and> take 2 pattern = ''{:'' \<and> last pattern = CHR ''}''
         \<and> list_all (\<lambda>c. \<not> is_brace c) (butlast (drop 2 pattern))
      then format_spec R (butlast (drop 2 pattern)) v
      else Inl HostFormatError)"

text \<open>
  \<^verbatim>\<open>message.format(arg)\<close> for a stored message and one string argument. A doubled
  brace is an escaped brace, \<^verbatim>\<open>{}\<close> is the next positional argument (there is one), a
  lone brace is an error. Any other replacement field is answered with
  \<open>HostFormatError\<close>: after \<open>sub_pattern\<close> the only pair of braces with no brace
  between them is the marker \<^verbatim>\<open>{}\<close>, so such a field is unclosed or wraps the marker.
  \<open>used\<close> counts the arguments taken so far.
\<close>

fun format_message :: "nat \<Rightarrow> string \<Rightarrow> string \<Rightarrow> error + string" where
  "format_message used [] arg = Inr []"
| "format_message used [c] arg = (if is_brace c then Inl HostFormatError else Inr [c])"
| "format_message used (c # d # r) arg =
     (if c = CHR ''{'' then
        (if d = CHR ''{'' then
           (case format_message used r arg of Inl e \<Rightarrow> Inl e | Inr t \<Rightarrow> Inr (c # t))
         else if d = CHR ''}'' then
           (if used = 0 then
              (case format_message (Suc used) r arg of Inl e \<Rightarrow> Inl e | Inr t \<Rightarrow> Inr (arg @ t))
            else Inl HostFormatError)
         else Inl HostFormatError)
      else if c = CHR ''}'' then
        (if d = CHR ''}'' then
           (case format_message used r arg of Inl e \<Rightarrow> Inl e | Inr t \<Rightarrow> Inr (c # t))
         else Inl HostFormatError)
      else
        (case format_message used (d # r) arg of Inl e \<Rightarrow> Inl e | Inr t \<Rightarrow> Inr (c # t)))"

text \<open>\<^verbatim>\<open>sep.join(parts)\<close>.\<close>

fun join :: "string \<Rightarrow> string list \<Rightarrow> string" where
  "join s [] = []"
| "join s [x] = x"
| "join s (x # y # zs) = x @ s @ join s (y # zs)"

subsection \<open>The formatter\<close>

record iterwriter =
  sep :: string
  names :: "string list"
  messages :: "string \<rightharpoonup> string"
  bases :: "string \<rightharpoonup> string"
  pad_lengths :: "string \<rightharpoonup> nat"
  decimals :: "string \<rightharpoonup> nat option"

text \<open>
  \<^verbatim>\<open>add_message(name, message)\<close>. A method returns the object as it is when the call
  ends, and either the exception raised or the value returned. The steps are in the
  order of the source: validation, the name, the pattern, the four stores. After the
  name is appended the source can still raise in \<^verbatim>\<open>re.findall\<close>, \<^verbatim>\<open>patterns[0]\<close> and
  \<^verbatim>\<open>decompose_pattern\<close>; these branches are kept, with the state as it is at that point,
  and \<open>add_message_failure_keeps_state\<close> below shows that a validated message never
  takes them.
\<close>

definition add_message :: "iterwriter \<Rightarrow> string \<Rightarrow> pyobj \<Rightarrow> iterwriter \<times> (error + unit)" where
  "add_message w name message =
     (case validate_message message of
        Inl e \<Rightarrow> (w, Inl e)
      | Inr ok \<Rightarrow>
          let w1 = (if name \<notin> set (names w) then w\<lparr>names := names w @ [name]\<rparr> else w) in
          (case message of
             PyOther \<Rightarrow> (w1, Inl NotString)
           | PyStr m \<Rightarrow>
               let patterns = findall_pattern m;
                   message' = sub_pattern m
               in (case patterns of
                     [] \<Rightarrow> (w1, Inl EmptyPatternIndex)
                   | p # ps \<Rightarrow>
                       (case decompose_pattern p of
                          Inl e \<Rightarrow> (w1, Inl e)
                        | Inr (base, pad_length, decimal) \<Rightarrow>
                            (w1\<lparr>messages := (messages w1)(name \<mapsto> message'),
                                bases := (bases w1)(name \<mapsto> base),
                                pad_lengths := (pad_lengths w1)(name \<mapsto>
                                  (case pad_length of None \<Rightarrow> 0 | Some n \<Rightarrow> n)),
                                decimals := (decimals w1)(name \<mapsto> decimal)\<rparr>,
                             Inr ())))))"

text \<open>
  \<^verbatim>\<open>__init__(*args, sep, **kwargs)\<close>. The keyword arguments are a dictionary, given here
  as the list of its items in order. The separator is always passed (the default of
  the source is a string with a character outside ASCII). A constructor that raises
  leaves no object.
\<close>

fun add_messages :: "iterwriter \<Rightarrow> (string \<times> pyobj) list \<Rightarrow> error + iterwriter" where
  "add_messages w [] = Inr w"
| "add_messages w ((name, message) # kvs) =
     (case add_message w name message of
        (w', Inl e) \<Rightarrow> Inl e
      | (w', Inr u) \<Rightarrow> add_messages w' kvs)"

definition init :: "pyobj list \<Rightarrow> string \<Rightarrow> (string \<times> pyobj) list \<Rightarrow> error + iterwriter" where
  "init args sp kwargs =
     (if length args > 0 then Inl UnnamedFieldsUnsupported
      else add_messages
             \<lparr>sep = sp, names = map fst kwargs, messages = Map.empty, bases = Map.empty,
              pad_lengths = Map.empty, decimals = Map.empty\<rparr>
             kwargs)"

text \<open>
  One round of the loop of \<^verbatim>\<open>format\<close>, for one item of the keyword arguments: the
  three lookups, the pattern, the length of the rendered value, the update of the
  stored length, the rendering that is kept.
\<close>

definition format_item ::
  "'f frender \<Rightarrow> iterwriter \<Rightarrow> string \<Rightarrow> 'f pyval \<Rightarrow> iterwriter \<times> (error + string)" where
  "format_item R w name v =
     (case (bases w name, pad_lengths w name, decimals w name) of
        (Some base, Some pad_length, Some decimal) \<Rightarrow>
          let pattern = compose_pattern (Some base) (Some pad_length) decimal in
          (case format_value R pattern v of
             Inl e \<Rightarrow> (w, Inl e)
           | Inr s \<Rightarrow>
               let composed_len = length s in
               if composed_len > pad_length then
                 let w' = w\<lparr>pad_lengths := (pad_lengths w)(name \<mapsto> max pad_length composed_len)\<rparr>;
                     pattern' = compose_pattern (Some base) (Some (max pad_length composed_len)) decimal
                 in (w', format_value R pattern' v)
               else (w, format_value R pattern v))
      | _ \<Rightarrow> (w, Inl (UnknownName name)))"

fun format_items ::
  "'f frender \<Rightarrow> iterwriter \<Rightarrow> (string \<times> 'f pyval) list \<Rightarrow> (string \<rightharpoonup> string)
     \<Rightarrow> iterwriter \<times> (error + (string \<rightharpoonup> string))" where
  "format_items R w [] composed_elements = (w, Inr composed_elements)"
| "format_items R w ((name, v) # kvs) composed_elements =
     (case format_item R w name v of
        (w', Inl e) \<Rightarrow> (w', Inl e)
      | (w', Inr s) \<Rightarrow> format_items R w' kvs (composed_elements(name \<mapsto> s)))"

text \<open>
  The dictionary comprehension of \<^verbatim>\<open>format\<close>, in the order of \<^verbatim>\<open>self.names\<close>:
  each stored message filled with the rendered value of its name.
\<close>

fun fill_messages :: "iterwriter \<Rightarrow> (string \<rightharpoonup> string) \<Rightarrow> string list \<Rightarrow> error + string list" where
  "fill_messages w composed_elements [] = Inr []"
| "fill_messages w composed_elements (name # ns) =
     (case (messages w name, composed_elements name) of
        (Some m, Some c) \<Rightarrow>
          (case format_message 0 m c of
             Inl e \<Rightarrow> Inl e
           | Inr t \<Rightarrow>
               (case fill_messages w composed_elements ns of
                  Inl e \<Rightarrow> Inl e
                | Inr ts \<Rightarrow> Inr (t # ts)))
      | _ \<Rightarrow> Inl (UnknownName name))"

text \<open>
  \<^verbatim>\<open>format(**kwargs)\<close>: the loop over the items, the check that every name has a
  rendered value, the join.
\<close>

definition format ::
  "'f frender \<Rightarrow> iterwriter \<Rightarrow> (string \<times> 'f pyval) list \<Rightarrow> iterwriter \<times> (error + string)" where
  "format R w kwargs =
     (case format_items R w kwargs Map.empty of
        (w', Inl e) \<Rightarrow> (w', Inl e)
      | (w', Inr composed_elements) \<Rightarrow>
          if list_ex (\<lambda>name. composed_elements name = None) (names w') then
            (w', Inl (MissingFields
                       (set (filter (\<lambda>name. composed_elements name = None) (names w')))))
          else
            (case fill_messages w' composed_elements (names w') of
               Inl e \<Rightarrow> (w', Inl e)
             | Inr ts \<Rightarrow> (w', Inr (join (sep w') ts))))"

subsection \<open>Invariant and observations\<close>

text \<open>
  What holds of every formatter the constructor returns, and after every call of
  \<open>add_message\<close> and \<open>format\<close> on it: the names are distinct, the four dictionaries
  have exactly the names as keys, and each field has the type tag \<^verbatim>\<open>f\<close>, or the tag
  \<^verbatim>\<open>d\<close> and no precision.
\<close>

definition wf :: "iterwriter \<Rightarrow> bool" where
  "wf w =
     (distinct (names w)
      \<and> dom (messages w) = set (names w) \<and> dom (bases w) = set (names w)
      \<and> dom (pad_lengths w) = set (names w) \<and> dom (decimals w) = set (names w)
      \<and> list_all (\<lambda>n. bases w n = Some ''f''
                       \<or> (bases w n = Some ''d'' \<and> decimals w n = Some None)) (names w))"

text \<open>
  \<open>rendered_value\<close> is \<^verbatim>\<open>composed_elements[name]\<close> of one call of \<^verbatim>\<open>format\<close>, when the
  loop of the call completes and has rendered a value for the name.
  \<open>rendered_widths\<close> lists, for a sequence of calls on one formatter, the lengths of the
  values rendered for one name, each call running in the state the one before left.
\<close>

definition rendered_value ::
  "'f frender \<Rightarrow> iterwriter \<Rightarrow> (string \<times> 'f pyval) list \<Rightarrow> string \<Rightarrow> string option" where
  "rendered_value R w kwargs name =
     (case format_items R w kwargs Map.empty of
        (w', Inl e) \<Rightarrow> None
      | (w', Inr composed_elements) \<Rightarrow> composed_elements name)"

fun rendered_widths ::
  "'f frender \<Rightarrow> iterwriter \<Rightarrow> string \<Rightarrow> (string \<times> 'f pyval) list list \<Rightarrow> nat list" where
  "rendered_widths R w name [] = []"
| "rendered_widths R w name (kwargs # calls) =
     (case rendered_value R w kwargs name of None \<Rightarrow> [] | Some s \<Rightarrow> [length s])
       @ rendered_widths R (fst (format R w kwargs)) name calls"

text \<open>
  \<open>value_fits\<close>: the host can render the value under the type tag and precision stored
  for the name, that is an integer for the tag \<^verbatim>\<open>d\<close>, and for the tag \<^verbatim>\<open>f\<close> a number
  the host renders. \<open>field_text\<close>: the text of one field in the output of \<open>format\<close>,
  the stored message of the name filled with the value as one round of the loop renders
  it in the formatter \<open>w\<close>.
\<close>

definition value_fits :: "'f frender \<Rightarrow> iterwriter \<Rightarrow> string \<Rightarrow> 'f pyval \<Rightarrow> bool" where
  "value_fits R w name v =
     (case (bases w name, decimals w name) of
        (Some b, Some d) \<Rightarrow>
          if b = ''d'' then (case v of IntV i \<Rightarrow> d = None | FloatV x \<Rightarrow> False)
          else R d v \<noteq> None
      | _ \<Rightarrow> False)"

definition field_text :: "'f frender \<Rightarrow> iterwriter \<Rightarrow> string \<Rightarrow> 'f pyval \<Rightarrow> error + string" where
  "field_text R w name v =
     (case snd (format_item R w name v) of
        Inl e \<Rightarrow> Inl e
      | Inr s \<Rightarrow>
          (case messages w name of
             None \<Rightarrow> Inl (UnknownName name)
           | Some m \<Rightarrow> format_message 0 m s))"

text \<open>
  The text of a number under a type tag and a precision before any padding, and the
  padding with spaces on the left that a composed pattern of width \<open>p\<close> asks for.
\<close>

definition lpad :: "nat \<Rightarrow> string \<Rightarrow> string" where
  "lpad p s = replicate (p - length s) (CHR '' '') @ s"

definition natural_text :: "'f frender \<Rightarrow> string \<Rightarrow> nat option \<Rightarrow> 'f pyval \<Rightarrow> error + string" where
  "natural_text R b d v =
     (if b = ''d'' then
        (case v of
           IntV i \<Rightarrow> if d \<noteq> None then Inl HostFormatError else Inr (str_int i)
         | FloatV x \<Rightarrow> Inl HostFormatError)
      else (case R d v of None \<Rightarrow> Inl HostFormatError | Some s \<Rightarrow> Inr s))"

text \<open>The formatter after a successful \<open>add_message\<close>.\<close>

definition registered ::
  "iterwriter \<Rightarrow> string \<Rightarrow> string \<Rightarrow> string \<Rightarrow> nat option \<Rightarrow> nat option \<Rightarrow> iterwriter" where
  "registered w name text b pl d =
     w\<lparr>names := (if name \<notin> set (names w) then names w @ [name] else names w),
       messages := (messages w)(name \<mapsto> text),
       bases := (bases w)(name \<mapsto> b),
       pad_lengths := (pad_lengths w)(name \<mapsto> (case pl of None \<Rightarrow> 0 | Some n \<Rightarrow> n)),
       decimals := (decimals w)(name \<mapsto> d)\<rparr>"

text \<open>
  The stores of a formatter hold the names of a set \<open>D\<close>, each with the type tag \<^verbatim>\<open>d\<close>
  or \<^verbatim>\<open>f\<close> and a precision only with \<^verbatim>\<open>f\<close>.
\<close>

definition stored :: "iterwriter \<Rightarrow> string set \<Rightarrow> bool" where
  "stored w D =
     (dom (messages w) = D \<and> dom (bases w) = D \<and> dom (pad_lengths w) = D \<and> dom (decimals w) = D
      \<and> (\<forall>n \<in> D. bases w n = Some ''f'' \<or> (bases w n = Some ''d'' \<and> decimals w n = Some None)))"

text \<open>
  The formatter of the repository's test of \<^verbatim>\<open>format\<close>, built from
  \<^verbatim>\<open>mumbo="long:{:10d}"\<close> and \<^verbatim>\<open>jumbo="short:{:0d}"\<close> with the separator \<^verbatim>\<open>--\<close>, and a
  host that renders no float (the fields of the test are integers).
\<close>

definition test_writer :: iterwriter where
  "test_writer =
     \<lparr>sep = ''--'', names = [''mumbo'', ''jumbo''],
      messages = [''mumbo'' \<mapsto> ''long:{}'', ''jumbo'' \<mapsto> ''short:{}''],
      bases = [''mumbo'' \<mapsto> ''d'', ''jumbo'' \<mapsto> ''d''],
      pad_lengths = [''mumbo'' \<mapsto> 10, ''jumbo'' \<mapsto> 0],
      decimals = [''mumbo'' \<mapsto> None, ''jumbo'' \<mapsto> None]\<rparr>"

definition no_floats :: "unit frender" where
  "no_floats precision v = None"

subsection \<open>Digits\<close>

lemma lt_ten_cases:
  "(d::nat) < 10 \<Longrightarrow>
     d = 0 \<or> d = 1 \<or> d = 2 \<or> d = 3 \<or> d = 4 \<or> d = 5 \<or> d = 6 \<or> d = 7 \<or> d = 8 \<or> d = 9"
  by arith

lemma digit_val_digit_char: "d < 10 \<Longrightarrow> digit_val (digit_char d) = d"
  by (drule lt_ten_cases) (auto simp: digit_val_def digit_char_def)

lemma is_digit_digit_char: "d < 10 \<Longrightarrow> is_digit (digit_char d)"
  by (drule lt_ten_cases) (auto simp: is_digit_def digit_char_def)

lemma digit_char_nonzero: "0 < d \<Longrightarrow> d < 10 \<Longrightarrow> digit_char d \<noteq> CHR ''0''"
  by (drule lt_ten_cases) (auto simp: digit_char_def)

lemma str_nat_digits: "c \<in> set (str_nat n) \<Longrightarrow> is_digit c"
proof (induction n arbitrary: c rule: str_nat.induct)
  case (1 n)
  from "1.prems" show ?case
    by (subst (asm) str_nat.simps) (auto simp: is_digit_digit_char "1.IH" split: if_splits)
qed

lemma str_nat_not_empty: "str_nat n \<noteq> []"
  by (subst str_nat.simps) simp

lemma int_of_digits_snoc: "int_of_digits (s @ [c]) = 10 * int_of_digits s + digit_val c"
  by (simp add: int_of_digits_def)

lemma int_of_digits_str_nat: "int_of_digits (str_nat n) = n"
proof (induction n rule: str_nat.induct)
  case (1 n)
  show ?case
  proof (cases "n < 10")
    case True
    then show ?thesis
      by (subst str_nat.simps) (simp add: int_of_digits_def digit_val_digit_char)
  next
    case False
    have "int_of_digits (str_nat n) =
            10 * int_of_digits (str_nat (n div 10)) + digit_val (digit_char (n mod 10))"
      using False by (subst str_nat.simps) (simp add: int_of_digits_snoc)
    also have "\<dots> = 10 * (n div 10) + n mod 10"
      using False "1.IH" by (simp add: digit_val_digit_char)
    finally show ?thesis by simp
  qed
qed

lemma str_nat_hd: "0 < n \<Longrightarrow> hd (str_nat n) \<noteq> CHR ''0''"
proof (induction n rule: str_nat.induct)
  case (1 n)
  show ?case
  proof (cases "n < 10")
    case True
    with "1.prems" show ?thesis
      by (subst str_nat.simps) (simp add: digit_char_nonzero)
  next
    case False
    then have "0 < n div 10" by (simp add: div_greater_zero_iff)
    with "1.IH" False have "hd (str_nat (n div 10)) \<noteq> CHR ''0''" by simp
    with False show ?thesis
      by (subst str_nat.simps) (simp add: str_nat_not_empty)
  qed
qed

lemma str_nat_zero: "str_nat 0 = ''0''"
  by (subst str_nat.simps) (simp add: digit_char_def)

lemma takeWhile_digits_str_nat:
  "(r = [] \<or> \<not> is_digit (hd r)) \<Longrightarrow> takeWhile is_digit (str_nat n @ r) = str_nat n"
  by (cases r) (auto simp: takeWhile_append str_nat_digits takeWhile_eq_all_conv)

lemma dropWhile_digits_str_nat:
  "(r = [] \<or> \<not> is_digit (hd r)) \<Longrightarrow> dropWhile is_digit (str_nat n @ r) = r"
  by (cases r) (auto simp: dropWhile_append str_nat_digits dropWhile_eq_Nil_conv)

subsection \<open>Matching\<close>

lemma is_digit_simps [simp]:
  "\<not> is_digit (CHR '':'')" "\<not> is_digit (CHR ''.'')" "\<not> is_digit (CHR ''d'')"
  "\<not> is_digit (CHR ''f'')" "\<not> is_digit (CHR ''}'')" "\<not> is_digit (CHR ''{'')"
  by (simp_all add: is_digit_def)

lemma is_digit_not_brace: "is_digit c \<Longrightarrow> \<not> is_brace c"
  by (auto simp: is_digit_def is_brace_def)

lemma findall_pattern_no_brace: "list_all (\<lambda>c. \<not> is_brace c) s \<Longrightarrow> findall_pattern s = []"
  by (induction s) (auto simp: match_pattern_def is_brace_def)

lemma match_pattern_field:
  "list_all (\<lambda>c. \<not> is_brace c) p \<Longrightarrow> match_pattern (CHR ''{'' # p @ CHR ''}'' # rest) = Some (p, rest)"
  by (simp add: match_pattern_def list_all_iff dropWhile_append3 takeWhile_tail is_brace_def)

lemma findall_pattern_single:
  "list_all (\<lambda>c. \<not> is_brace c) pre \<Longrightarrow> list_all (\<lambda>c. \<not> is_brace c) p \<Longrightarrow>
   list_all (\<lambda>c. \<not> is_brace c) post \<Longrightarrow>
   findall_pattern (pre @ CHR ''{'' # p @ CHR ''}'' # post) = [p]"
proof (induction pre)
  case Nil
  then show ?case by (simp add: match_pattern_field findall_pattern_no_brace)
next
  case (Cons c pre)
  then have "match_pattern (c # pre @ CHR ''{'' # p @ CHR ''}'' # post) = None"
    by (simp add: match_pattern_def is_brace_def)
  with Cons show ?case by simp
qed

lemma findall_number_skip: "k \<notin> set s \<Longrightarrow> findall_number k (s @ r) = findall_number k r"
  by (induction s) auto

lemma findall_number_none: "k \<notin> set s \<Longrightarrow> findall_number k s = []"
  using findall_number_skip [of k s "[]"] by simp

lemma takeWhile_digits_app:
  "list_all is_digit W \<Longrightarrow> r = [] \<or> \<not> is_digit (hd r) \<Longrightarrow> takeWhile is_digit (W @ r) = W"
  by (cases r) (auto simp: list_all_iff takeWhile_tail)

lemma dropWhile_digits_app:
  "list_all is_digit W \<Longrightarrow> r = [] \<or> \<not> is_digit (hd r) \<Longrightarrow> dropWhile is_digit (W @ r) = r"
  by (cases r) (auto simp: list_all_iff dropWhile_append3)

lemma digits_no_char: "list_all is_digit W \<Longrightarrow> \<not> is_digit k \<Longrightarrow> k \<notin> set W"
  by (auto simp: list_all_iff)

lemma decompose_plain:
  assumes W: "list_all is_digit W" and t: "t = ''d'' \<or> t = ''f''"
  shows "decompose_pattern (CHR '':'' # W @ t) =
           Inr (t, if W = [] then None else Some (int_of_digits W), None)"
proof -
  have tw: "takeWhile is_digit (W @ t) = W" and dw: "dropWhile is_digit (W @ t) = t"
    using W t by (auto simp: takeWhile_digits_app dropWhile_digits_app)
  have nt: "findall_number k t = []" if "k = CHR '':'' \<or> k = CHR ''.''" for k
    using t that by (intro findall_number_none) auto
  have pad: "findall_number (CHR '':'') (CHR '':'' # W @ t) = (if W = [] then [] else [W])"
    using tw dw nt by simp
  have "findall_number (CHR ''.'') (CHR '':'' # W @ t) = findall_number (CHR ''.'') t"
    using findall_number_skip [of "CHR ''.''" "CHR '':'' # W" t] digits_no_char [OF W, of "CHR ''.''"]
    by simp
  then have dec: "findall_number (CHR ''.'') (CHR '':'' # W @ t) = []"
    using nt by simp
  show ?thesis using t pad dec by (auto simp: decompose_pattern_def)
qed

lemma decompose_precision:
  assumes W: "list_all is_digit W" and P: "list_all is_digit P" "P \<noteq> []"
    and t: "t = ''d'' \<or> t = ''f''"
  shows "decompose_pattern (CHR '':'' # W @ CHR ''.'' # P @ t) =
           Inr (t, if W = [] then None else Some (int_of_digits W), Some (int_of_digits P))"
proof -
  have tw: "takeWhile is_digit (W @ CHR ''.'' # P @ t) = W"
    and dw: "dropWhile is_digit (W @ CHR ''.'' # P @ t) = CHR ''.'' # P @ t"
    using W by (auto simp: takeWhile_digits_app dropWhile_digits_app)
  have tp: "takeWhile is_digit (P @ t) = P" and dp: "dropWhile is_digit (P @ t) = t"
    using P t by (auto simp: takeWhile_digits_app dropWhile_digits_app)
  have nt: "findall_number k t = []" if "k = CHR '':'' \<or> k = CHR ''.''" for k
    using t that by (intro findall_number_none) auto
  have "CHR '':'' \<notin> set (CHR ''.'' # P)"
    using digits_no_char [OF P(1), of "CHR '':''"] by simp
  then have rest: "findall_number (CHR '':'') (CHR ''.'' # P @ t) = []"
    using findall_number_skip [of "CHR '':''" "CHR ''.'' # P" t] nt by simp
  have pad: "findall_number (CHR '':'') (CHR '':'' # W @ CHR ''.'' # P @ t) = (if W = [] then [] else [W])"
    using tw dw rest by simp
  have "findall_number (CHR ''.'') (CHR '':'' # W @ CHR ''.'' # P @ t)
          = findall_number (CHR ''.'') (CHR ''.'' # P @ t)"
    using findall_number_skip [of "CHR ''.''" "CHR '':'' # W" "CHR ''.'' # P @ t"]
      digits_no_char [OF W, of "CHR ''.''"] by simp
  also have "\<dots> = [P]" using tp dp nt P(2) by simp
  finally have dec: "findall_number (CHR ''.'') (CHR '':'' # W @ CHR ''.'' # P @ t) = [P]" .
  show ?thesis using t pad dec by (auto simp: decompose_pattern_def)
qed

section \<open>Patterns, validation and construction\<close>

subsection \<open>C8: the composed pattern\<close>

text \<open>
  C8. \<open>compose_pattern\<close> writes \<^verbatim>\<open>{:\<close>, the width when there is one, a dot and the
  precision when there is one, the type tag when there is one, and \<^verbatim>\<open>}\<close>, for every
  combination of present and absent arguments; with all three absent it is \<^verbatim>\<open>{:}\<close>.
\<close>

theorem compose_pattern_canonical:
  "compose_pattern base pad_length decimal =
     ''{:'' @ (case pad_length of None \<Rightarrow> [] | Some n \<Rightarrow> str_nat n)
           @ (case decimal of None \<Rightarrow> [] | Some d \<Rightarrow> ''.'' @ str_nat d)
           @ (case base of None \<Rightarrow> [] | Some b \<Rightarrow> b) @ ''}''
   \<and> compose_pattern None None None = ''{:}''"
  by (simp add: compose_pattern_def split: option.splits)

subsection \<open>C9: positional arguments\<close>

lemma validate_message_not_unnamed: "validate_message m \<noteq> Inl UnnamedFieldsUnsupported"
  by (auto simp: validate_message_def decompose_pattern_def Let_def split: pyobj.splits if_splits)

lemma add_message_not_unnamed: "snd (add_message w n m) \<noteq> Inl UnnamedFieldsUnsupported"
  using validate_message_not_unnamed [of m]
  by (auto simp: add_message_def decompose_pattern_def Let_def
      split: sum.splits pyobj.splits list.splits if_splits)

lemma add_messages_not_unnamed: "add_messages w kvs \<noteq> Inl UnnamedFieldsUnsupported"
proof (induction kvs arbitrary: w)
  case Nil
  show ?case by simp
next
  case (Cons kv kvs)
  obtain n m where kv: "kv = (n, m)" by (cases kv)
  obtain w' r where a: "add_message w n m = (w', r)" by (cases "add_message w n m")
  show ?case
  proof (cases r)
    case (Inl e)
    with a add_message_not_unnamed [of w n m] have "e \<noteq> UnnamedFieldsUnsupported" by auto
    with kv a Inl show ?thesis by simp
  next
    case (Inr u)
    with kv a Cons.IH [of w'] show ?thesis by simp
  qed
qed

text \<open>
  C9. A constructor call with at least one positional argument fails with
  \<open>UnnamedFieldsUnsupported\<close>, a \<^verbatim>\<open>NotImplementedError\<close>, whatever the other arguments
  are; a call with keyword arguments only never fails with that kind.
\<close>

theorem init_unnamed_fields:
  "(args \<noteq> [] \<longrightarrow> init args sp kwargs = Inl UnnamedFieldsUnsupported)
   \<and> exception_of UnnamedFieldsUnsupported = NotImplementedError
   \<and> init [] sp kwargs \<noteq> Inl UnnamedFieldsUnsupported"
  by (simp add: init_def add_messages_not_unnamed)

theorem init_unnamed_fields_witness:
  "[PyStr ''({update:3d} / 100): '', PyStr ''{val:6.3f}''] \<noteq> []
   \<and> init [PyStr ''({update:3d} / 100): '', PyStr ''{val:6.3f}''] [] [] = Inl UnnamedFieldsUnsupported
   \<and> init [] [] [(''a'', PyStr ''{:d}'')] \<noteq> Inl UnnamedFieldsUnsupported"
  using init_unnamed_fields [of "[PyStr ''({update:3d} / 100): '', PyStr ''{val:6.3f}'']" "[]" "[]"]
    init_unnamed_fields [of "[]" "[]" "[(''a'', PyStr ''{:d}'')]"]
  by simp

subsection \<open>C10: the empty pattern\<close>

text \<open>
  C10. A message with one substitution site whose braces enclose nothing, such as
  \<^verbatim>\<open>{}\<close>, makes \<open>validate_message\<close> raise the \<^verbatim>\<open>IndexError\<close> of \<^verbatim>\<open>pattern[-1]\<close>, an
  exception that is none of the documented kinds; \<open>add_message\<close> and the constructor
  pass it on.
\<close>

theorem empty_pattern_index_error:
  "findall_pattern m = [[]] \<Longrightarrow>
     validate_message (PyStr m) = Inl EmptyPatternIndex
     \<and> exception_of EmptyPatternIndex = IndexError
     \<and> add_message w name (PyStr m) = (w, Inl EmptyPatternIndex)
     \<and> init [] sp ((name, PyStr m) # kwargs) = Inl EmptyPatternIndex"
  by (simp add: validate_message_def decompose_pattern_def add_message_def init_def)

lemma findall_braces: "findall_pattern ''{}'' = [[]]"
  by (simp add: match_pattern_def is_brace_def)

theorem empty_pattern_index_error_witness:
  "findall_pattern ''{}'' = [[]]
   \<and> validate_message (PyStr ''{}'') = Inl EmptyPatternIndex
   \<and> init [] '' | '' [(''a'', PyStr ''{}'')] = Inl EmptyPatternIndex"
  using empty_pattern_index_error [OF findall_braces, of _ "''a''" "'' | ''" "[]"] findall_braces
  by simp

subsection \<open>C5: validation\<close>

lemma str_nat_all_digits: "list_all is_digit (str_nat n)"
  by (simp add: list_all_iff str_nat_digits)

lemma digits_no_brace: "list_all is_digit W \<Longrightarrow> list_all (\<lambda>c. \<not> is_brace c) W"
  by (auto simp: list_all_iff is_digit_not_brace)

lemma validate_message_single:
  "findall_pattern m = [p] \<Longrightarrow> decompose_pattern p = Inr (base, pad_length, decimal) \<Longrightarrow>
   validate_message (PyStr m) =
     (if base \<notin> {''d'', ''f''} then Inl UnsupportedType
      else if decimal \<noteq> None \<and> base \<noteq> ''f'' then Inl PrecisionOnNonFloat
      else Inr True)"
  by (simp add: validate_message_def)

lemma validate_message_plain:
  assumes "list_all (\<lambda>c. \<not> is_brace c) pre" "list_all (\<lambda>c. \<not> is_brace c) post"
    and W: "list_all is_digit W" and t: "t = ''d'' \<or> t = ''f''"
  shows "validate_message (PyStr (pre @ ''{:'' @ W @ t @ ''}'' @ post)) = Inr True"
proof -
  have p: "list_all (\<lambda>c. \<not> is_brace c) (CHR '':'' # W @ t)"
    using digits_no_brace [OF W] t by (auto simp: is_brace_def)
  have "findall_pattern (pre @ CHR ''{'' # (CHR '':'' # W @ t) @ CHR ''}'' # post) = [CHR '':'' # W @ t]"
    by (rule findall_pattern_single [OF assms(1) p assms(2)])
  then have f: "findall_pattern (pre @ ''{:'' @ W @ t @ ''}'' @ post) = [CHR '':'' # W @ t]"
    by simp
  show ?thesis
    using validate_message_single [OF f decompose_plain [OF W t]] t by auto
qed

lemma validate_message_precision:
  assumes "list_all (\<lambda>c. \<not> is_brace c) pre" "list_all (\<lambda>c. \<not> is_brace c) post"
    and W: "list_all is_digit W" and P: "list_all is_digit P" "P \<noteq> []"
  shows "validate_message (PyStr (pre @ ''{:'' @ W @ ''.'' @ P @ ''f}'' @ post)) = Inr True"
proof -
  have t: "''f'' = ''d'' \<or> ''f'' = ''f''" by simp
  have p: "list_all (\<lambda>c. \<not> is_brace c) (CHR '':'' # W @ CHR ''.'' # P @ ''f'')"
    using digits_no_brace [OF W] digits_no_brace [OF P(1)] by (auto simp: is_brace_def)
  have "findall_pattern (pre @ CHR ''{'' # (CHR '':'' # W @ CHR ''.'' # P @ ''f'') @ CHR ''}'' # post)
          = [CHR '':'' # W @ CHR ''.'' # P @ ''f'']"
    by (rule findall_pattern_single [OF assms(1) p assms(2)])
  then have f: "findall_pattern (pre @ ''{:'' @ W @ ''.'' @ P @ ''f}'' @ post)
                  = [CHR '':'' # W @ CHR ''.'' # P @ ''f'']"
    by simp
  show ?thesis
    using validate_message_single [OF f decompose_precision [OF W P t]] by simp
qed

text \<open>
  C5. \<open>validate_message\<close> rejects an argument that is not a string as \<open>NotString\<close>
  (\<^verbatim>\<open>ValueError\<close>), a message with no substitution site as \<open>NoPattern\<close>
  (\<^verbatim>\<open>ValueError\<close>), one with more than one site as \<open>MultiplePatterns\<close>
  (\<^verbatim>\<open>NotImplementedError\<close>), one whose decomposed type tag is neither \<^verbatim>\<open>d\<close> nor \<^verbatim>\<open>f\<close> as
  \<open>UnsupportedType\<close> (\<^verbatim>\<open>NotImplementedError\<close>), and one with a precision on the tag \<^verbatim>\<open>d\<close> as
  \<open>PrecisionOnNonFloat\<close> (\<^verbatim>\<open>ValueError\<close>). It accepts every well-formed template: text
  without braces around \<^verbatim>\<open>{:d}\<close> or \<^verbatim>\<open>{:f}\<close>, with or without a width, and for \<^verbatim>\<open>f\<close> with
  or without a precision.
\<close>

theorem validate_message_kinds:
  "validate_message PyOther = Inl NotString
   \<and> (findall_pattern m = [] \<longrightarrow> validate_message (PyStr m) = Inl NoPattern)
   \<and> (1 < length (findall_pattern m) \<longrightarrow> validate_message (PyStr m) = Inl MultiplePatterns)
   \<and> (findall_pattern m = [p] \<and> decompose_pattern p = Inr (base, pad_length, decimal)
        \<and> base \<notin> {''d'', ''f''} \<longrightarrow> validate_message (PyStr m) = Inl UnsupportedType)
   \<and> (findall_pattern m = [p] \<and> decompose_pattern p = Inr (base, pad_length, decimal)
        \<and> base = ''d'' \<and> decimal \<noteq> None \<longrightarrow> validate_message (PyStr m) = Inl PrecisionOnNonFloat)
   \<and> exception_of NotString = ValueError \<and> exception_of NoPattern = ValueError
   \<and> exception_of MultiplePatterns = NotImplementedError
   \<and> exception_of UnsupportedType = NotImplementedError
   \<and> exception_of PrecisionOnNonFloat = ValueError
   \<and> (list_all (\<lambda>c. \<not> is_brace c) pre \<and> list_all (\<lambda>c. \<not> is_brace c) post
        \<and> list_all is_digit W \<and> list_all is_digit P \<longrightarrow>
          validate_message (PyStr (pre @ ''{:'' @ W @ ''d}'' @ post)) = Inr True
        \<and> validate_message (PyStr (pre @ ''{:'' @ W @ ''f}'' @ post)) = Inr True
        \<and> (P \<noteq> [] \<longrightarrow>
             validate_message (PyStr (pre @ ''{:'' @ W @ ''.'' @ P @ ''f}'' @ post)) = Inr True))"
proof -
  have a: "findall_pattern m = [] \<Longrightarrow> validate_message (PyStr m) = Inl NoPattern"
    by (simp add: validate_message_def)
  have b: "1 < length (findall_pattern m) \<Longrightarrow> validate_message (PyStr m) = Inl MultiplePatterns"
    by (auto simp: validate_message_def Let_def)
  have c: "validate_message (PyStr (pre @ ''{:'' @ W @ ''d}'' @ post)) = Inr True"
    if "list_all (\<lambda>c. \<not> is_brace c) pre" "list_all (\<lambda>c. \<not> is_brace c) post" "list_all is_digit W"
    using validate_message_plain [OF that, of "''d''"] by simp
  have d: "validate_message (PyStr (pre @ ''{:'' @ W @ ''f}'' @ post)) = Inr True"
    if "list_all (\<lambda>c. \<not> is_brace c) pre" "list_all (\<lambda>c. \<not> is_brace c) post" "list_all is_digit W"
    using validate_message_plain [OF that, of "''f''"] by simp
  show ?thesis
    using a b c d validate_message_precision [of pre post W P]
    by (auto simp: validate_message_single validate_message_def)
qed

lemma findall_no_pattern: "findall_pattern ''I forgot a pattern.'' = []"
  by (simp add: match_pattern_def)

lemma findall_two: "findall_pattern ''Two patterns {:5.2f} {:6.3f}'' = ['':5.2f'', '':6.3f'']"
  by (simp add: match_pattern_def is_brace_def)

lemma findall_whoops: "findall_pattern ''{:whoops}'' = ['':whoops'']"
  by (simp add: match_pattern_def is_brace_def)

lemma decompose_whoops: "decompose_pattern '':whoops'' = Inr (''s'', None, None)"
  by (simp add: decompose_pattern_def is_digit_def)

lemma findall_55d: "findall_pattern ''{:5.5d}'' = ['':5.5d'']"
  by (simp add: match_pattern_def is_brace_def)

lemma decompose_55d: "decompose_pattern '':5.5d'' = Inr (''d'', Some 5, Some 5)"
  by (simp add: decompose_pattern_def is_digit_def int_of_digits_def digit_val_def)

theorem validate_message_kinds_witness:
  "findall_pattern ''I forgot a pattern.'' = []
   \<and> validate_message (PyStr ''I forgot a pattern.'') = Inl NoPattern
   \<and> 1 < length (findall_pattern ''Two patterns {:5.2f} {:6.3f}'')
   \<and> validate_message (PyStr ''Two patterns {:5.2f} {:6.3f}'') = Inl MultiplePatterns
   \<and> findall_pattern ''{:whoops}'' = ['':whoops'']
   \<and> decompose_pattern '':whoops'' = Inr (''s'', None, None)
   \<and> validate_message (PyStr ''{:whoops}'') = Inl UnsupportedType
   \<and> findall_pattern ''{:5.5d}'' = ['':5.5d'']
   \<and> decompose_pattern '':5.5d'' = Inr (''d'', Some 5, Some 5)
   \<and> validate_message (PyStr ''{:5.5d}'') = Inl PrecisionOnNonFloat
   \<and> validate_message (PyStr ''A valid message {:5d}'') = Inr True
   \<and> validate_message (PyStr ''{:7f}'') = Inr True
   \<and> validate_message (PyStr ''{:f}'') = Inr True
   \<and> validate_message (PyStr ''{:d}'') = Inr True
   \<and> validate_message (PyStr ''{:0.0f} is also valid'') = Inr True
   \<and> validate_message (PyStr ''A valid message + pattern {:5.2f}'') = Inr True"
  using validate_message_kinds [of "''I forgot a pattern.''" _ _ _ _ "''A valid message ''" "[]" "''5''" "[]"]
    validate_message_kinds [of "''Two patterns {:5.2f} {:6.3f}''" _ _ _ _ "[]" "[]" "''7''" "[]"]
    validate_message_kinds [of "''{:whoops}''" "'':whoops''" "''s''" None None "[]" "[]" "[]" "[]"]
    validate_message_kinds [of "''{:5.5d}''" "'':5.5d''" "''d''" "Some 5" "Some 5" "[]" "'' is also valid''" "''0''" "''0''"]
    validate_message_kinds [of _ _ _ _ _ "''A valid message + pattern ''" "[]" "''5''" "''2''"]
    findall_no_pattern findall_two findall_whoops decompose_whoops findall_55d decompose_55d
  by (simp add: is_brace_def is_digit_def)

subsection \<open>C2: decomposing a composed pattern\<close>

text \<open>
  C2, as stated, fails: \<open>compose_pattern\<close> returns the pattern with its braces, and
  \<open>decompose_pattern\<close> takes the last character of what it is given as the type tag, so
  on the composed string the tag it returns is the closing brace.
\<close>

theorem decompose_of_compose_counterexample:
  "decompose_pattern (compose_pattern (Some ''f'') (Some 5) (Some 2)) = Inr (''}'', Some 5, Some 2)
   \<and> decompose_pattern (compose_pattern (Some ''f'') (Some 5) (Some 2)) \<noteq> Inr (''f'', Some 5, Some 2)"
  by (simp add: compose_pattern_def decompose_pattern_def str_nat.simps digit_char_def
      is_digit_def int_of_digits_def digit_val_def)

text \<open>
  C2, amended. For a type tag \<^verbatim>\<open>d\<close> or \<^verbatim>\<open>f\<close>, any width or none, and any precision or
  none (a precision only with \<^verbatim>\<open>f\<close>), the composed string is one substitution site:
  \<open>findall_pattern\<close> finds in it exactly the text between its braces, which is what
  \<open>decompose_pattern\<close> is documented to take, and decomposing that text gives back the
  same tag, width and precision.
\<close>

theorem decompose_compose_roundtrip:
  assumes t: "t = ''d'' \<or> t = ''f''" and f: "decimal \<noteq> None \<longrightarrow> t = ''f''"
  shows "\<exists>p. compose_pattern (Some t) pad_length decimal = ''{'' @ p @ ''}''
            \<and> findall_pattern (compose_pattern (Some t) pad_length decimal) = [p]
            \<and> decompose_pattern p = Inr (t, pad_length, decimal)"
proof -
  define W where "W = (case pad_length of None \<Rightarrow> [] | Some n \<Rightarrow> str_nat n)"
  have W: "list_all is_digit W"
    by (simp add: W_def str_nat_all_digits split: option.splits)
  have Wv: "(if W = [] then None else Some (int_of_digits W)) = pad_length"
    by (simp add: W_def str_nat_not_empty int_of_digits_str_nat split: option.splits)
  show ?thesis
  proof (cases decimal)
    case None
    let ?p = "CHR '':'' # W @ t"
    have c: "compose_pattern (Some t) pad_length decimal = ''{'' @ ?p @ ''}''"
      using None by (simp add: compose_pattern_def W_def)
    have nb: "list_all (\<lambda>c. \<not> is_brace c) ?p"
      using digits_no_brace [OF W] t by (auto simp: is_brace_def)
    have "findall_pattern ([] @ CHR ''{'' # ?p @ CHR ''}'' # []) = [?p]"
      by (rule findall_pattern_single [OF _ nb]) simp_all
    then have fa: "findall_pattern (compose_pattern (Some t) pad_length decimal) = [?p]"
      using c by simp
    have "decompose_pattern ?p = Inr (t, pad_length, decimal)"
      using decompose_plain [OF W t] Wv None by simp
    with c fa show ?thesis by blast
  next
    case (Some d)
    let ?P = "str_nat d"
    let ?p = "CHR '':'' # W @ CHR ''.'' # ?P @ t"
    have P: "list_all is_digit ?P" "?P \<noteq> []"
      by (simp_all add: str_nat_all_digits str_nat_not_empty)
    have c: "compose_pattern (Some t) pad_length decimal = ''{'' @ ?p @ ''}''"
      using Some by (simp add: compose_pattern_def W_def)
    have nb: "list_all (\<lambda>c. \<not> is_brace c) ?p"
      using digits_no_brace [OF W] digits_no_brace [OF P(1)] t by (auto simp: is_brace_def)
    have "findall_pattern ([] @ CHR ''{'' # ?p @ CHR ''}'' # []) = [?p]"
      by (rule findall_pattern_single [OF _ nb]) simp_all
    then have fa: "findall_pattern (compose_pattern (Some t) pad_length decimal) = [?p]"
      using c by simp
    have "decompose_pattern ?p = Inr (t, pad_length, decimal)"
      using decompose_precision [OF W P t] Wv Some by (simp add: int_of_digits_str_nat)
    with c fa show ?thesis by blast
  qed
qed

theorem decompose_compose_roundtrip_witness:
  "(''f'' = ''d'' \<or> ''f'' = ''f'')
   \<and> (\<exists>p. compose_pattern (Some ''f'') (Some 5) (Some 2) = ''{'' @ p @ ''}''
          \<and> findall_pattern (compose_pattern (Some ''f'') (Some 5) (Some 2)) = [p]
          \<and> decompose_pattern p = Inr (''f'', Some 5, Some 2))"
  using decompose_compose_roundtrip [of "''f''" "Some 2" "Some 5"]
  by simp

section \<open>The loop of format\<close>

subsection \<open>Composed patterns\<close>

lemma length_lpad: "length (lpad p s) = max p (length s)"
  by (simp add: lpad_def)

lemma lpad_fits: "p \<le> length s \<Longrightarrow> lpad p s = s"
  by (simp add: lpad_def)

lemma pad_number_zero_width: "pad_number z 0 s = s"
  by (simp add: pad_number_def split: list.splits)

lemma pad_number_spaces: "pad_number False p s = lpad p s"
  by (simp add: pad_number_def lpad_def)

lemma pad_number_composed: "pad_number (p = 0) p s = lpad p s"
  by (cases "p = 0") (simp_all add: pad_number_zero_width pad_number_spaces lpad_def)

lemma parse_spec_width:
  assumes r: "r \<noteq> []" "\<not> is_digit (hd r)"
  shows "parse_spec (str_nat p @ r) =
           (if hd r = CHR ''.'' then
              (if takeWhile is_digit (tl r) = [] then None
               else Some (p = 0, p, Some (int_of_digits (takeWhile is_digit (tl r))),
                          dropWhile is_digit (tl r)))
            else Some (p = 0, p, None, r))"
proof (cases "p = 0")
  case True
  have s: "str_nat p @ r = CHR ''0'' # r"
    using True by (simp add: str_nat_zero)
  have z: "(CHR ''0'' # r \<noteq> [] \<and> CHR ''0'' = CHR ''0'') = True"
    by simp
  have tw: "takeWhile is_digit r = []" and dw: "dropWhile is_digit r = r"
    using r by (cases r; simp)+
  show ?thesis
    unfolding parse_spec_def Let_def s z if_True list.sel tw dw
    using True r(1) by simp
next
  case False
  have z: "(str_nat p @ r \<noteq> [] \<and> hd (str_nat p @ r) = CHR ''0'') = False"
    using False str_nat_hd [of p] by (simp add: str_nat_not_empty)
  have tw: "takeWhile is_digit (str_nat p @ r) = str_nat p"
    and dw: "dropWhile is_digit (str_nat p @ r) = r"
    using r by (simp_all add: takeWhile_digits_str_nat dropWhile_digits_str_nat)
  show ?thesis
    unfolding parse_spec_def Let_def z if_False tw dw
    using False r(1) by (simp add: str_nat_not_empty int_of_digits_str_nat)
qed

lemma format_spec_plain:
  assumes b: "b = ''d'' \<or> b = ''f''"
  shows "format_spec R (str_nat p @ b) v =
           (case natural_text R b None v of Inl e \<Rightarrow> Inl e | Inr s \<Rightarrow> Inr (lpad p s))"
proof -
  have r: "b \<noteq> []" "\<not> is_digit (hd b)" using b by auto
  have "parse_spec (str_nat p @ b) = Some (p = 0, p, None, b)"
    using parse_spec_width [OF r, of p] b by auto
  then show ?thesis
    using b by (auto simp: format_spec_def natural_text_def pad_number_composed
        split: pyval.splits option.splits)
qed

lemma format_spec_precision:
  assumes b: "b = ''d'' \<or> b = ''f''"
  shows "format_spec R (str_nat p @ CHR ''.'' # str_nat k @ b) v =
           (case natural_text R b (Some k) v of Inl e \<Rightarrow> Inl e | Inr s \<Rightarrow> Inr (lpad p s))"
proof -
  have bd: "b = [] \<or> \<not> is_digit (hd b)" using b by auto
  have tk: "takeWhile is_digit (str_nat k @ b) = str_nat k"
    and dk: "dropWhile is_digit (str_nat k @ b) = b"
    using bd by (simp_all add: takeWhile_digits_str_nat dropWhile_digits_str_nat)
  have "parse_spec (str_nat p @ CHR ''.'' # str_nat k @ b) = Some (p = 0, p, Some k, b)"
    using parse_spec_width [of "CHR ''.'' # str_nat k @ b" p] tk dk
    by (simp add: str_nat_not_empty int_of_digits_str_nat)
  then show ?thesis
    using b by (auto simp: format_spec_def natural_text_def pad_number_composed
        split: pyval.splits option.splits)
qed

lemma format_value_field:
  "spec \<noteq> [] \<Longrightarrow> list_all (\<lambda>c. \<not> is_brace c) spec \<Longrightarrow>
   format_value R (''{:'' @ spec @ ''}'') v = format_spec R spec v"
  by (simp add: format_value_def butlast_append)

lemma format_value_composed:
  assumes b: "b = ''d'' \<or> b = ''f''"
  shows "format_value R (compose_pattern (Some b) (Some p) d) v =
           (case natural_text R b d v of Inl e \<Rightarrow> Inl e | Inr s \<Rightarrow> Inr (lpad p s))"
proof (cases d)
  case None
  have nb: "list_all (\<lambda>c. \<not> is_brace c) (str_nat p @ b)"
    using digits_no_brace [OF str_nat_all_digits, of p] b by (auto simp: is_brace_def)
  have "compose_pattern (Some b) (Some p) d = ''{:'' @ (str_nat p @ b) @ ''}''"
    using None by (simp add: compose_pattern_def)
  then show ?thesis
    using format_value_field [OF _ nb, of R v] format_spec_plain [OF b, of R p v] None
    by (simp add: str_nat_not_empty)
next
  case (Some k)
  have nb: "list_all (\<lambda>c. \<not> is_brace c) (str_nat p @ CHR ''.'' # str_nat k @ b)"
    using digits_no_brace [OF str_nat_all_digits, of p] digits_no_brace [OF str_nat_all_digits, of k] b
    by (auto simp: is_brace_def)
  have "compose_pattern (Some b) (Some p) d = ''{:'' @ (str_nat p @ CHR ''.'' # str_nat k @ b) @ ''}''"
    using Some by (simp add: compose_pattern_def)
  then show ?thesis
    using format_value_field [OF _ nb, of R v] format_spec_precision [OF b, of R p k v] Some
    by (simp add: str_nat_not_empty)
qed

subsection \<open>One item\<close>

lemma format_item_frame:
  "format_item R w n v = (w', r) \<Longrightarrow>
     sep w' = sep w \<and> names w' = names w \<and> messages w' = messages w \<and> bases w' = bases w
     \<and> decimals w' = decimals w \<and> (\<forall>m. m \<noteq> n \<longrightarrow> pad_lengths w' m = pad_lengths w m)
     \<and> dom (pad_lengths w') = dom (pad_lengths w)"
  by (auto simp: format_item_def Let_def split: option.splits sum.splits if_splits)

lemma format_item_grows:
  "format_item R w n v = (w', r) \<Longrightarrow> pad_lengths w m = Some p \<Longrightarrow>
     \<exists>p'. pad_lengths w' m = Some p' \<and> p \<le> p'"
  by (auto simp: format_item_def Let_def split: option.splits sum.splits if_splits)

lemma format_item_wf: "wf w \<Longrightarrow> format_item R w n v = (w', r) \<Longrightarrow> wf w'"
  using format_item_frame [of R w n v w' r] by (simp add: wf_def)

lemma format_item_unknown:
  "bases w n = None \<Longrightarrow> format_item R w n v = (w, Inl (UnknownName n))"
  by (simp add: format_item_def)

lemma wf_field:
  assumes "wf w" "n \<in> set (names w)"
  obtains b p d where "bases w n = Some b" "b = ''d'' \<or> b = ''f''" "pad_lengths w n = Some p"
    "decimals w n = Some d" "b = ''d'' \<longrightarrow> d = None"
proof -
  from assms have "n \<in> dom (pad_lengths w)" "n \<in> dom (decimals w)"
    by (simp_all add: wf_def)
  then obtain p d where "pad_lengths w n = Some p" "decimals w n = Some d" by auto
  moreover from assms
  have "bases w n = Some ''f'' \<or> (bases w n = Some ''d'' \<and> decimals w n = Some None)"
    by (auto simp: wf_def list_all_iff)
  ultimately show ?thesis using that by auto
qed

lemma format_item_known:
  assumes b: "bases w n = Some b" "b = ''d'' \<or> b = ''f''"
    and p: "pad_lengths w n = Some p" and d: "decimals w n = Some d"
  shows "format_item R w n v =
           (case natural_text R b d v of
              Inl e \<Rightarrow> (w, Inl e)
            | Inr s \<Rightarrow> (w\<lparr>pad_lengths := (pad_lengths w)(n \<mapsto> max p (length s))\<rparr>,
                        Inr (lpad (max p (length s)) s)))"
proof (cases "natural_text R b d v")
  case (Inl e)
  then show ?thesis
    using b p d by (simp add: format_item_def format_value_composed)
next
  case (Inr s)
  show ?thesis
  proof (cases "p < length s")
    case True
    then have "max p (length (lpad p s)) = length s" "max p (length s) = length s"
      by (simp_all add: length_lpad)
    with True Inr show ?thesis
      using b p d by (simp add: format_item_def format_value_composed length_lpad Let_def)
  next
    case False
    then have m: "max p (length s) = p" by simp
    have "(pad_lengths w)(n \<mapsto> p) = pad_lengths w"
      using p by (rule map_upd_triv)
    then have "w\<lparr>pad_lengths := (pad_lengths w)(n \<mapsto> p)\<rparr> = w" by simp
    with False Inr m show ?thesis
      using b p d by (simp add: format_item_def format_value_composed length_lpad Let_def)
  qed
qed

subsection \<open>The loop\<close>

lemma format_items_frame:
  "format_items R w kvs ce = (w', r) \<Longrightarrow>
     sep w' = sep w \<and> names w' = names w \<and> messages w' = messages w \<and> bases w' = bases w
     \<and> decimals w' = decimals w \<and> (\<forall>m. m \<notin> fst ` set kvs \<longrightarrow> pad_lengths w' m = pad_lengths w m)
     \<and> dom (pad_lengths w') = dom (pad_lengths w)"
proof (induction kvs arbitrary: w ce)
  case Nil
  then show ?case by simp
next
  case (Cons kv kvs)
  obtain n v where kv: "kv = (n, v)" by (cases kv)
  obtain w1 r1 where i: "format_item R w n v = (w1, r1)" by (cases "format_item R w n v")
  note f = format_item_frame [OF i]
  show ?case
  proof (cases r1)
    case (Inl e)
    with Cons.prems kv i have "w' = w1" by simp
    with f show ?thesis by (simp add: kv)
  next
    case (Inr s)
    with Cons.prems kv i have "format_items R w1 kvs (ce(n \<mapsto> s)) = (w', r)" by simp
    from Cons.IH [OF this] f show ?thesis by (simp add: kv)
  qed
qed

lemma format_items_grows:
  "format_items R w kvs ce = (w', r) \<Longrightarrow> pad_lengths w m = Some p \<Longrightarrow>
     \<exists>p'. pad_lengths w' m = Some p' \<and> p \<le> p'"
proof (induction kvs arbitrary: w ce p)
  case Nil
  then show ?case by simp
next
  case (Cons kv kvs)
  obtain n v where kv: "kv = (n, v)" by (cases kv)
  obtain w1 r1 where i: "format_item R w n v = (w1, r1)" by (cases "format_item R w n v")
  from format_item_grows [OF i Cons.prems(2)]
  obtain p1 where p1: "pad_lengths w1 m = Some p1" "p \<le> p1" by blast
  show ?case
  proof (cases r1)
    case (Inl e)
    with Cons.prems kv i have "w' = w1" by simp
    with p1 show ?thesis by simp
  next
    case (Inr s)
    with Cons.prems kv i have "format_items R w1 kvs (ce(n \<mapsto> s)) = (w', r)" by simp
    from Cons.IH [OF this p1(1)] p1(2) show ?thesis by auto
  qed
qed

lemma format_items_wf: "wf w \<Longrightarrow> format_items R w kvs ce = (w', r) \<Longrightarrow> wf w'"
  using format_items_frame [of R w kvs ce w' r] by (simp add: wf_def)

lemma format_state: "fst (format R w kwargs) = fst (format_items R w kwargs Map.empty)"
  by (simp add: format_def split: prod.splits sum.splits)

text \<open>Every rendered value has the length that is stored for its name afterwards.\<close>

lemma format_items_lengths:
  assumes "wf w" "\<forall>m s. ce m = Some s \<longrightarrow> pad_lengths w m = Some (length s)"
    and "format_items R w kvs ce = (w', Inr ce')"
  shows "\<forall>m s. ce' m = Some s \<longrightarrow> pad_lengths w' m = Some (length s)"
  using assms
proof (induction kvs arbitrary: w ce)
  case Nil
  then show ?case by simp
next
  case (Cons kv kvs)
  obtain n v where kv: "kv = (n, v)" by (cases kv)
  obtain w1 r1 where i: "format_item R w n v = (w1, r1)" by (cases "format_item R w n v")
  from Cons.prems(3) kv i obtain s where r1: "r1 = Inr s"
    and rest: "format_items R w1 kvs (ce(n \<mapsto> s)) = (w', Inr ce')"
    by (cases r1) auto
  have wf1: "wf w1" using format_item_wf [OF Cons.prems(1) i] .
  have known: "bases w n \<noteq> None"
    using i r1 format_item_unknown [of w n R v] by auto
  then have "n \<in> set (names w)" using Cons.prems(1) by (auto simp: wf_def)
  from wf_field [OF Cons.prems(1) this]
  obtain b p d where f: "bases w n = Some b" "b = ''d'' \<or> b = ''f''" "pad_lengths w n = Some p"
    "decimals w n = Some d" by metis
  from format_item_known [OF f, of R v] i r1
  have here: "pad_lengths w1 n = Some (length s)"
    by (auto simp: length_lpad split: sum.splits)
  have other: "\<forall>m. m \<noteq> n \<longrightarrow> pad_lengths w1 m = pad_lengths w m"
    using format_item_frame [OF i] by simp
  have "\<forall>m t. (ce(n \<mapsto> s)) m = Some t \<longrightarrow> pad_lengths w1 m = Some (length t)"
    using here other Cons.prems(2) by auto
  from Cons.IH [OF wf1 this rest] show ?case .
qed

lemma rendered_value_length:
  "wf w \<Longrightarrow> rendered_value R w kwargs n = Some s \<Longrightarrow>
     pad_lengths (fst (format R w kwargs)) n = Some (length s)"
  using format_items_lengths [of w Map.empty R kwargs]
  by (auto simp: rendered_value_def format_state split: prod.splits sum.splits)

lemma format_wf: "wf w \<Longrightarrow> wf (fst (format R w kwargs))"
  using format_items_wf [of w R kwargs Map.empty]
  by (cases "format_items R w kwargs Map.empty") (simp add: format_state)

lemma format_grows:
  "pad_lengths w m = Some p \<Longrightarrow> \<exists>p'. pad_lengths (fst (format R w kwargs)) m = Some p' \<and> p \<le> p'"
  using format_items_grows [of R w kwargs Map.empty]
  by (cases "format_items R w kwargs Map.empty") (simp add: format_state)

lemma format_dom: "dom (pad_lengths (fst (format R w kwargs))) = dom (pad_lengths w)"
  using format_items_frame [of R w kwargs Map.empty]
  by (cases "format_items R w kwargs Map.empty") (simp add: format_state)

lemma rendered_widths_bounded:
  assumes "wf w"
  shows "sorted (rendered_widths R w n calls)
         \<and> (\<forall>p x. pad_lengths w n = Some p \<longrightarrow> x \<in> set (rendered_widths R w n calls) \<longrightarrow> p \<le> x)"
  using assms
proof (induction calls arbitrary: w)
  case Nil
  show ?case by simp
next
  case (Cons kwargs calls)
  let ?w1 = "fst (format R w kwargs)"
  have wf1: "wf ?w1" using Cons.prems by (rule format_wf)
  note IH = Cons.IH [OF wf1]
  show ?case
  proof (cases "rendered_value R w kwargs n")
    case None
    have "p \<le> x" if "pad_lengths w n = Some p" "x \<in> set (rendered_widths R ?w1 n calls)" for p x
    proof -
      from format_grows [OF that(1), of R kwargs]
      obtain p' where "pad_lengths ?w1 n = Some p'" "p \<le> p'" by blast
      with IH that(2) show ?thesis by fastforce
    qed
    with None IH show ?thesis by auto
  next
    case (Some s)
    have len: "pad_lengths ?w1 n = Some (length s)"
      using rendered_value_length [OF Cons.prems Some] .
    have a: "\<forall>x \<in> set (rendered_widths R ?w1 n calls). length s \<le> x"
      using IH len by blast
    have b: "p \<le> length s" if "pad_lengths w n = Some p" for p
      using format_grows [OF that, of R kwargs] len by auto
    show ?thesis
      using Some IH a b by (fastforce simp: sorted_append)
  qed
qed

lemma wf_test_writer: "wf test_writer"
  by (auto simp: wf_def test_writer_def)

lemma init_test_writer:
  "init [] ''--'' [(''mumbo'', PyStr ''long:{:10d}''), (''jumbo'', PyStr ''short:{:0d}'')]
     = Inr test_writer"
  by (simp add: init_def add_message_def validate_message_def match_pattern_def is_brace_def
      decompose_pattern_def is_digit_def int_of_digits_def digit_val_def test_writer_def)

lemma t2: "snd (format no_floats test_writer [(''mumbo'', IntV 0), (''jumbo'', IntV 0)]) = Inr ''long:         0--short:0''"
  by code_simp

subsection \<open>Registration\<close>

lemma validate_message_accepts:
  assumes "validate_message message = Inr ok"
  obtains m p b pl d where "message = PyStr m" "findall_pattern m = [p]"
    "decompose_pattern p = Inr (b, pl, d)" "b = ''d'' \<or> b = ''f''" "d \<noteq> None \<longrightarrow> b = ''f''"
proof -
  from assms obtain m where m: "message = PyStr m"
    by (cases message) (simp_all add: validate_message_def)
  from assms m obtain p where p: "findall_pattern m = [p]"
    by (cases "findall_pattern m")
      (auto simp: validate_message_def Let_def split: if_splits list.splits)
  from assms m p obtain b pl d where d: "decompose_pattern p = Inr (b, pl, d)"
    by (cases "decompose_pattern p") (auto simp: validate_message_def)
  from assms m p d have "b = ''d'' \<or> b = ''f''" "d \<noteq> None \<longrightarrow> b = ''f''"
    by (auto simp: validate_message_def split: if_splits)
  with m p d that show ?thesis by blast
qed

lemma add_message_rejected:
  "validate_message message = Inl e \<Longrightarrow> add_message w name message = (w, Inl e)"
  by (simp add: add_message_def)

lemma add_message_accepted:
  assumes "validate_message message = Inr ok"
  shows "\<exists>m b pl d. (b = ''d'' \<or> b = ''f'') \<and> (d \<noteq> None \<longrightarrow> b = ''f'')
           \<and> add_message w name message = (registered w name (sub_pattern m) b pl d, Inr ())"
proof -
  from validate_message_accepts [OF assms]
  obtain m p b pl d where f: "message = PyStr m" "findall_pattern m = [p]"
    "decompose_pattern p = Inr (b, pl, d)" "b = ''d'' \<or> b = ''f''" "d \<noteq> None \<longrightarrow> b = ''f''"
    by blast
  have "add_message w name message = (registered w name (sub_pattern m) b pl d, Inr ())"
    using assms f(1,2,3) by (simp add: add_message_def registered_def Let_def)
  with f(4,5) show ?thesis by blast
qed

lemma add_message_failure_keeps_state:
  assumes "snd (add_message w name message) = Inl e"
  shows "fst (add_message w name message) = w"
proof (cases "validate_message message")
  case (Inl e')
  then show ?thesis by (simp add: add_message_rejected)
next
  case (Inr ok)
  from add_message_accepted [OF Inr, of w name]
  obtain w1 where "add_message w name message = (w1, Inr ())" by blast
  with assms show ?thesis by simp
qed

lemma wf_stored: "wf w = (distinct (names w) \<and> stored w (set (names w)))"
  by (auto simp: wf_def stored_def list_all_iff)

lemma registered_stored:
  assumes "stored w D" "distinct (names w)" "b = ''d'' \<or> b = ''f''" "d \<noteq> None \<longrightarrow> b = ''f''"
  shows "stored (registered w name text b pl d) (insert name D)
         \<and> distinct (names (registered w name text b pl d))
         \<and> set (names (registered w name text b pl d)) = insert name (set (names w))"
  using assms unfolding stored_def registered_def by auto

lemma add_message_stored:
  assumes "stored w D" "distinct (names w)" "add_message w name message = (w', Inr u)"
  shows "stored w' (insert name D) \<and> distinct (names w')
         \<and> set (names w') = insert name (set (names w))"
proof -
  from assms(3) obtain ok where v: "validate_message message = Inr ok"
    by (cases "validate_message message") (simp_all add: add_message_rejected)
  from add_message_accepted [OF v, of w name]
  obtain m b pl d where f: "b = ''d'' \<or> b = ''f''" "d \<noteq> None \<longrightarrow> b = ''f''"
    and a: "add_message w name message = (registered w name (sub_pattern m) b pl d, Inr ())"
    by blast
  from a assms(3) have w': "w' = registered w name (sub_pattern m) b pl d" by simp
  show ?thesis
    unfolding w' using assms(1,2) f by (rule registered_stored)
qed

lemma add_message_wf: "wf w \<Longrightarrow> add_message w name message = (w', r) \<Longrightarrow> wf w'"
proof (cases r)
  case (Inl e)
  assume "wf w" "add_message w name message = (w', r)"
  with Inl add_message_failure_keeps_state [of w name message e] show ?thesis by simp
next
  case (Inr u)
  assume "wf w" "add_message w name message = (w', r)"
  with Inr add_message_stored [of w "set (names w)" name message w' u] show ?thesis
    by (simp add: wf_stored)
qed

lemma add_messages_stored:
  assumes "stored w D" "distinct (names w)" "add_messages w kvs = Inr w'"
  shows "stored w' (D \<union> fst ` set kvs) \<and> distinct (names w')
         \<and> set (names w') = set (names w) \<union> fst ` set kvs"
  using assms
proof (induction kvs arbitrary: w D)
  case Nil
  then show ?case by simp
next
  case (Cons kv kvs)
  obtain n m where kv: "kv = (n, m)" by (cases kv)
  obtain w1 r1 where a: "add_message w n m = (w1, r1)" by (cases "add_message w n m")
  from Cons.prems(3) kv a obtain u where r1: "r1 = Inr u" and rest: "add_messages w1 kvs = Inr w'"
    by (cases r1) auto
  from add_message_stored [OF Cons.prems(1,2) a [unfolded r1]]
  have s1: "stored w1 (insert n D)" "distinct (names w1)" "set (names w1) = insert n (set (names w))"
    by simp_all
  from Cons.IH [OF s1(1,2) rest] s1(3) kv show ?case by auto
qed

lemma init_wf:
  assumes "distinct (map fst kwargs)" "init args sp kwargs = Inr w"
  shows "wf w"
proof -
  let ?w0 = "\<lparr>sep = sp, names = map fst kwargs, messages = Map.empty, bases = Map.empty,
              pad_lengths = Map.empty, decimals = Map.empty\<rparr>"
  from assms(2) have a: "add_messages ?w0 kwargs = Inr w"
    by (simp add: init_def split: if_splits)
  have "stored ?w0 {}" by (simp add: stored_def)
  from add_messages_stored [OF this _ a] assms(1)
  show ?thesis by (simp add: wf_stored)
qed

subsection \<open>C7: failures and the state\<close>

lemma test_call_fails:
  "snd (format no_floats test_writer [(''jumbo'', IntV 654)]) = Inl (MissingFields {''mumbo''})"
  by code_simp

lemma test_call_grows:
  "pad_lengths (fst (format no_floats test_writer [(''jumbo'', IntV 654)])) ''jumbo'' = Some 3"
  by code_simp

lemma test_writer_jumbo: "pad_lengths test_writer ''jumbo'' = Some 0"
  by (simp add: test_writer_def)

lemma test_add_fails:
  "snd (add_message test_writer ''best'' (PyStr ''(best: {:6.2e})'')) = Inl UnsupportedType"
  by code_simp

text \<open>
  C7. When \<open>add_message\<close> fails, the formatter is as it was before the call: the only
  failures are those of the validation, which runs before any store is written. When
  \<open>format\<close> fails with \<open>MissingFields\<close>, the formatter is the one the loop over the
  supplied values left, so the widths the loop has grown stay grown; there is such a
  call on which a supplied field's width has grown.
\<close>

theorem failure_and_state:
  "(snd (add_message w name message) = Inl e \<longrightarrow> fst (add_message w name message) = w)
   \<and> (snd (format R w kwargs) = Inl (MissingFields ms) \<longrightarrow>
        fst (format R w kwargs) = fst (format_items R w kwargs Map.empty))
   \<and> (\<exists>w0 kwargs0 ms0 n p p'.
         wf w0 \<and> snd (format no_floats w0 kwargs0) = Inl (MissingFields ms0)
         \<and> n \<in> fst ` set kwargs0
         \<and> pad_lengths w0 n = Some p
         \<and> pad_lengths (fst (format no_floats w0 kwargs0)) n = Some p' \<and> p < p')"
proof -
  have "wf test_writer
         \<and> snd (format no_floats test_writer [(''jumbo'', IntV 654)]) = Inl (MissingFields {''mumbo''})
         \<and> ''jumbo'' \<in> fst ` set [(''jumbo'', IntV 654 :: unit pyval)]
         \<and> pad_lengths test_writer ''jumbo'' = Some 0
         \<and> pad_lengths (fst (format no_floats test_writer [(''jumbo'', IntV 654)])) ''jumbo'' = Some 3
         \<and> (0::nat) < 3"
    using test_call_fails test_call_grows wf_test_writer test_writer_jumbo by simp
  then have ex: "\<exists>w0 kwargs0 ms0 n p p'.
         wf w0 \<and> snd (format no_floats w0 kwargs0) = Inl (MissingFields ms0)
         \<and> n \<in> fst ` set kwargs0
         \<and> pad_lengths w0 n = Some p
         \<and> pad_lengths (fst (format no_floats w0 kwargs0)) n = Some p' \<and> p < p'"
    by blast
  have keep: "snd (add_message w name message) = Inl e \<longrightarrow> fst (add_message w name message) = w"
    using add_message_failure_keeps_state [of w name message e] by blast
  have st: "fst (format R w kwargs) = fst (format_items R w kwargs Map.empty)"
    by (rule format_state)
  from keep st ex show ?thesis by blast
qed

theorem failure_and_state_witness:
  "snd (add_message test_writer ''best'' (PyStr ''(best: {:6.2e})'')) = Inl UnsupportedType
   \<and> fst (add_message test_writer ''best'' (PyStr ''(best: {:6.2e})'')) = test_writer
   \<and> snd (format no_floats test_writer [(''jumbo'', IntV 654)]) = Inl (MissingFields {''mumbo''})
   \<and> fst (format no_floats test_writer [(''jumbo'', IntV 654)])
       = fst (format_items no_floats test_writer [(''jumbo'', IntV 654)] Map.empty)
   \<and> pad_lengths test_writer ''jumbo'' = Some 0
   \<and> pad_lengths (fst (format no_floats test_writer [(''jumbo'', IntV 654)])) ''jumbo'' = Some 3"
  using failure_and_state [of test_writer "''best''" "PyStr ''(best: {:6.2e})''" UnsupportedType
      no_floats "[(''jumbo'', IntV 654)]" "{''mumbo''}"]
    test_add_fails test_call_fails test_call_grows test_writer_jumbo
  by blast

subsection \<open>C1: the width ratchet\<close>

lemma test_writer_mumbo: "pad_lengths test_writer ''mumbo'' = Some 10"
  by (simp add: test_writer_def)

lemma test_readd:
  "snd (add_message test_writer ''mumbo'' (PyStr ''long:{:2d}'')) = Inr ()"
  "pad_lengths (fst (add_message test_writer ''mumbo'' (PyStr ''long:{:2d}''))) ''mumbo'' = Some 2"
  by code_simp+

text \<open>
  C1, as stated, fails: the stored width does not only grow across the lifetime of a
  formatter. \<open>add_message\<close> on a name that is already registered overwrites the stored
  width with the width of the new pattern, here 2 where 10 was stored.
\<close>

theorem width_reset_counterexample:
  "wf test_writer
   \<and> pad_lengths test_writer ''mumbo'' = Some 10
   \<and> snd (add_message test_writer ''mumbo'' (PyStr ''long:{:2d}'')) = Inr ()
   \<and> pad_lengths (fst (add_message test_writer ''mumbo'' (PyStr ''long:{:2d}''))) ''mumbo'' = Some 2"
  using wf_test_writer test_writer_mumbo test_readd by blast

text \<open>
  C1, amended. No call of \<open>format\<close>, failing or not, lowers a stored width: it leaves
  it or raises it. Over a sequence of calls of \<open>format\<close> on one formatter, the lengths
  of the values rendered for one field are non-decreasing, also when later values are
  shorter.
\<close>

theorem format_width_ratchet:
  "(pad_lengths w n = Some p \<longrightarrow>
      (\<exists>p'. pad_lengths (fst (format R w kwargs)) n = Some p' \<and> p \<le> p'))
   \<and> (wf w \<longrightarrow> sorted (rendered_widths R w n calls))"
  using format_grows [of w n p R kwargs] rendered_widths_bounded [of w R n calls] by blast

lemma test_widths:
  "rendered_widths no_floats test_writer ''jumbo''
      [[(''mumbo'', IntV 0), (''jumbo'', IntV 0)],
       [(''mumbo'', IntV 432), (''jumbo'', IntV 654)],
       [(''jumbo'', IntV 0), (''mumbo'', IntV 432)]] = [1, 3, 3]"
  by code_simp

theorem format_width_ratchet_witness:
  "pad_lengths test_writer ''jumbo'' = Some 0
   \<and> (\<exists>p'. pad_lengths (fst (format no_floats test_writer [(''jumbo'', IntV 654)])) ''jumbo'' = Some p'
          \<and> 0 \<le> p')
   \<and> wf test_writer
   \<and> rendered_widths no_floats test_writer ''jumbo''
        [[(''mumbo'', IntV 0), (''jumbo'', IntV 0)],
         [(''mumbo'', IntV 432), (''jumbo'', IntV 654)],
         [(''jumbo'', IntV 0), (''mumbo'', IntV 432)]] = [1, 3, 3]
   \<and> sorted (rendered_widths no_floats test_writer ''jumbo''
        [[(''mumbo'', IntV 0), (''jumbo'', IntV 0)],
         [(''mumbo'', IntV 432), (''jumbo'', IntV 654)],
         [(''jumbo'', IntV 0), (''mumbo'', IntV 432)]])"
  using format_width_ratchet [of test_writer "''jumbo''" 0 no_floats "[(''jumbo'', IntV 654)]"
        "[[(''mumbo'', IntV 0), (''jumbo'', IntV 0)],
         [(''mumbo'', IntV 432), (''jumbo'', IntV 654)],
         [(''jumbo'', IntV 0), (''mumbo'', IntV 432)]]"]
    test_writer_jumbo wf_test_writer test_widths
  by blast

section \<open>Calls of format\<close>

subsection \<open>Which errors the loop raises\<close>

lemma format_value_error: "format_value R pattern v = Inl e \<Longrightarrow> e = HostFormatError"
  by (auto simp: format_value_def format_spec_def split: if_splits option.splits pyval.splits)

lemma format_item_error:
  "format_item R w n v = (w', Inl e) \<Longrightarrow> e = UnknownName n \<or> e = HostFormatError"
  by (auto simp: format_item_def Let_def dest: format_value_error
      split: option.splits sum.splits if_splits)

lemma format_items_error:
  "format_items R w kvs ce = (w', Inl e) \<Longrightarrow> (\<exists>n. e = UnknownName n) \<or> e = HostFormatError"
proof (induction kvs arbitrary: w ce)
  case Nil
  then show ?case by simp
next
  case (Cons kv kvs)
  obtain n v where kv: "kv = (n, v)" by (cases kv)
  obtain w1 r1 where i: "format_item R w n v = (w1, r1)" by (cases "format_item R w n v")
  show ?case
  proof (cases r1)
    case (Inl e1)
    with Cons.prems kv i have "e = e1" by simp
    with format_item_error [of R w n v w1 e1] i Inl show ?thesis by auto
  next
    case (Inr s)
    with Cons.prems kv i have "format_items R w1 kvs (ce(n \<mapsto> s)) = (w', Inl e)" by simp
    then show ?thesis by (rule Cons.IH)
  qed
qed

lemma format_message_error: "format_message k m c = Inl e \<Longrightarrow> e = HostFormatError"
  by (induction k m c rule: format_message.induct) (auto split: if_splits sum.splits)

lemma fill_messages_error:
  "fill_messages w ce ns = Inl e \<Longrightarrow> (\<exists>n. e = UnknownName n) \<or> e = HostFormatError"
  by (induction ns) (auto split: option.splits sum.splits dest: format_message_error)

subsection \<open>Which names the loop fills\<close>

lemma format_items_keys:
  "format_items R w kvs ce = (w', Inr ce') \<Longrightarrow>
     ce' m = None \<longleftrightarrow> (ce m = None \<and> m \<notin> fst ` set kvs)"
proof (induction kvs arbitrary: w ce)
  case Nil
  then show ?case by simp
next
  case (Cons kv kvs)
  obtain n v where kv: "kv = (n, v)" by (cases kv)
  obtain w1 r1 where i: "format_item R w n v = (w1, r1)" by (cases "format_item R w n v")
  from Cons.prems kv i obtain s where "r1 = Inr s"
    and rest: "format_items R w1 kvs (ce(n \<mapsto> s)) = (w', Inr ce')"
    by (cases r1) auto
  from Cons.IH [OF rest] kv show ?case by auto
qed

lemma format_items_append:
  "format_items R w (xs @ ys) ce =
     (case format_items R w xs ce of
        (w1, Inl e) \<Rightarrow> (w1, Inl e)
      | (w1, Inr ce1) \<Rightarrow> format_items R w1 ys ce1)"
  by (induction xs arbitrary: w ce) (auto split: prod.splits sum.splits)

subsection \<open>Values that render\<close>

lemma value_fits_natural:
  assumes "bases w n = Some b" "b = ''d'' \<or> b = ''f''" "decimals w n = Some d"
  shows "value_fits R w n v \<longleftrightarrow> (\<exists>s. natural_text R b d v = Inr s)"
  using assms by (auto simp: value_fits_def natural_text_def split: pyval.splits option.splits)

lemma format_item_fits:
  assumes "wf w" "n \<in> set (names w)"
  shows "value_fits R w n v \<Longrightarrow> \<exists>w' s. format_item R w n v = (w', Inr s)"
    and "\<not> value_fits R w n v \<Longrightarrow> format_item R w n v = (w, Inl HostFormatError)"
proof -
  from wf_field [OF assms]
  obtain b p d where f: "bases w n = Some b" "b = ''d'' \<or> b = ''f''" "pad_lengths w n = Some p"
    "decimals w n = Some d" by metis
  note k = format_item_known [OF f, of R v] and vn = value_fits_natural [OF f(1,2,4), of R v]
  show "value_fits R w n v \<Longrightarrow> \<exists>w' s. format_item R w n v = (w', Inr s)"
    using k vn by auto
  show "\<not> value_fits R w n v \<Longrightarrow> format_item R w n v = (w, Inl HostFormatError)"
  proof -
    assume "\<not> value_fits R w n v"
    with vn obtain e where e: "natural_text R b d v = Inl e"
      by (cases "natural_text R b d v") auto
    then have "e = HostFormatError"
      by (auto simp: natural_text_def split: if_splits pyval.splits option.splits)
    with k e show ?thesis by simp
  qed
qed

lemma value_fits_frame:
  "bases w' = bases w \<Longrightarrow> decimals w' = decimals w \<Longrightarrow> value_fits R w' n v = value_fits R w n v"
  by (simp add: value_fits_def)

lemma format_items_fits:
  assumes "wf w" "\<forall>(n, v) \<in> set kvs. n \<in> set (names w) \<and> value_fits R w n v"
  shows "\<exists>w' ce'. format_items R w kvs ce = (w', Inr ce')"
  using assms
proof (induction kvs arbitrary: w ce)
  case Nil
  show ?case by simp
next
  case (Cons kv kvs)
  obtain n v where kv: "kv = (n, v)" by (cases kv)
  from Cons.prems kv have "n \<in> set (names w)" "value_fits R w n v" by auto
  from format_item_fits(1) [OF Cons.prems(1) this]
  obtain w1 s where i: "format_item R w n v = (w1, Inr s)" by blast
  have wf1: "wf w1" using format_item_wf [OF Cons.prems(1) i] .
  have fr: "names w1 = names w" "bases w1 = bases w" "decimals w1 = decimals w"
    using format_item_frame [OF i] by simp_all
  have vf: "value_fits R w1 m u = value_fits R w m u" for m u
    using fr(2,3) by (rule value_fits_frame)
  have "\<forall>(m, u) \<in> set kvs. m \<in> set (names w1) \<and> value_fits R w1 m u"
    using Cons.prems(2) fr(1) by (auto simp: vf)
  from Cons.IH [OF wf1 this, of "ce(n \<mapsto> s)"]
  obtain w2 ce2 where "format_items R w1 kvs (ce(n \<mapsto> s)) = (w2, Inr ce2)" by blast
  with kv i show ?case by simp
qed

lemma format_items_unknown:
  assumes "wf w" "(n, v) \<in> set kvs" "n \<notin> set (names w)"
  shows "\<exists>w' e. format_items R w kvs ce = (w', Inl e)"
  using assms
proof (induction kvs arbitrary: w ce)
  case Nil
  then show ?case by simp
next
  case (Cons kv kvs)
  obtain m u where kv: "kv = (m, u)" by (cases kv)
  obtain w1 r1 where i: "format_item R w m u = (w1, r1)" by (cases "format_item R w m u")
  show ?case
  proof (cases r1)
    case (Inl e)
    with kv i show ?thesis by simp
  next
    case (Inr s)
    have "m \<noteq> n"
    proof
      assume "m = n"
      with Cons.prems(1,3) have "bases w m = None" by (auto simp: wf_def)
      from format_item_unknown [OF this, of R u] i Inr show False by simp
    qed
    with Cons.prems(2) kv have mem: "(n, v) \<in> set kvs" by auto
    have wf1: "wf w1" using format_item_wf [OF Cons.prems(1) i] .
    have "n \<notin> set (names w1)" using format_item_frame [OF i] Cons.prems(3) by simp
    from Cons.IH [OF wf1 mem this, of "ce(m \<mapsto> s)"]
    obtain w2 e where "format_items R w1 kvs (ce(m \<mapsto> s)) = (w2, Inl e)" by blast
    with kv i Inr show ?thesis by simp
  qed
qed

subsection \<open>Items with distinct names do not interfere\<close>

lemma format_item_local:
  assumes "bases w1 m = bases w m" "pad_lengths w1 m = pad_lengths w m"
    "decimals w1 m = decimals w m"
  shows "snd (format_item R w1 m u) = snd (format_item R w m u)
         \<and> pad_lengths (fst (format_item R w1 m u)) m = pad_lengths (fst (format_item R w m u)) m"
  using assms by (auto simp: format_item_def Let_def split: option.splits sum.splits)

lemma format_items_distinct:
  assumes "distinct (map fst kvs)" "format_items R w kvs ce = (w', Inr ce')"
  shows "(\<forall>n v. (n, v) \<in> set kvs \<longrightarrow>
            (\<exists>s. snd (format_item R w n v) = Inr s \<and> ce' n = Some s
               \<and> pad_lengths w' n = pad_lengths (fst (format_item R w n v)) n))
         \<and> (\<forall>m. m \<notin> fst ` set kvs \<longrightarrow> ce' m = ce m \<and> pad_lengths w' m = pad_lengths w m)"
  using assms
proof (induction kvs arbitrary: w ce)
  case Nil
  then show ?case by simp
next
  case (Cons kv kvs)
  obtain n v where kv: "kv = (n, v)" by (cases kv)
  obtain w1 r1 where i: "format_item R w n v = (w1, r1)" by (cases "format_item R w n v")
  from Cons.prems(2) kv i obtain s where r1: "r1 = Inr s"
    and rest: "format_items R w1 kvs (ce(n \<mapsto> s)) = (w', Inr ce')"
    by (cases r1) auto
  from Cons.prems(1) kv have d: "distinct (map fst kvs)" and fresh: "n \<notin> fst ` set kvs"
    by auto
  note IH = Cons.IH [OF d rest]
  note IH1 = IH [THEN conjunct1, rule_format] and IH2 = IH [THEN conjunct2, rule_format]
  note fr = format_item_frame [OF i]
  have head: "snd (format_item R w n v) = Inr s \<and> ce' n = Some s
              \<and> pad_lengths w' n = pad_lengths (fst (format_item R w n v)) n"
    using IH2 [OF fresh] i r1 by simp
  have tail: "\<exists>t. snd (format_item R w m u) = Inr t \<and> ce' m = Some t
              \<and> pad_lengths w' m = pad_lengths (fst (format_item R w m u)) m"
    if mem: "(m, u) \<in> set kvs" for m u
  proof -
    from mem fresh have "m \<noteq> n" by force
    with fr have "bases w1 m = bases w m" "pad_lengths w1 m = pad_lengths w m"
      "decimals w1 m = decimals w m" by simp_all
    from format_item_local [OF this, of R u]
    have l: "snd (format_item R w1 m u) = snd (format_item R w m u)"
      "pad_lengths (fst (format_item R w1 m u)) m = pad_lengths (fst (format_item R w m u)) m"
      by simp_all
    from IH1 [OF mem] show ?thesis unfolding l .
  qed
  have others: "ce' m = ce m \<and> pad_lengths w' m = pad_lengths w m"
    if "m \<notin> fst ` set (kv # kvs)" for m
  proof -
    from that kv have "m \<noteq> n" "m \<notin> fst ` set kvs" by auto
    with IH2 [of m] fr show ?thesis by simp
  qed
  show ?case
  proof (intro conjI allI impI)
    fix m u
    assume "(m, u) \<in> set (kv # kvs)"
    then have "(m, u) = (n, v) \<or> (m, u) \<in> set kvs" using kv by simp
    then show "\<exists>s. snd (format_item R w m u) = Inr s \<and> ce' m = Some s
               \<and> pad_lengths w' m = pad_lengths (fst (format_item R w m u)) m"
    proof
      assume "(m, u) = (n, v)"
      with head show ?thesis by blast
    next
      assume "(m, u) \<in> set kvs"
      then show ?thesis by (rule tail)
    qed
  next
    fix m
    assume "m \<notin> fst ` set (kv # kvs)"
    then show "ce' m = ce m" "pad_lengths w' m = pad_lengths w m"
      using others [of m] by simp_all
  qed
qed

lemma format_items_succeeds:
  assumes "distinct (map fst kvs)"
    "\<forall>n v. (n, v) \<in> set kvs \<longrightarrow> (\<exists>s. snd (format_item R w n v) = Inr s)"
  shows "\<exists>w' ce'. format_items R w kvs ce = (w', Inr ce')"
  using assms
proof (induction kvs arbitrary: w ce)
  case Nil
  show ?case by simp
next
  case (Cons kv kvs)
  obtain n v where kv: "kv = (n, v)" by (cases kv)
  from Cons.prems(2) [rule_format, of n v] kv
  obtain s where s: "snd (format_item R w n v) = Inr s" by auto
  obtain w1 where i: "format_item R w n v = (w1, Inr s)"
    using s by (cases "format_item R w n v") auto
  from Cons.prems(1) kv have d: "distinct (map fst kvs)" and fresh: "n \<notin> fst ` set kvs"
    by auto
  note fr = format_item_frame [OF i]
  have "\<exists>t. snd (format_item R w1 m u) = Inr t" if mem: "(m, u) \<in> set kvs" for m u
  proof -
    from mem fresh have "m \<noteq> n" by force
    with fr have "bases w1 m = bases w m" "pad_lengths w1 m = pad_lengths w m"
      "decimals w1 m = decimals w m" by simp_all
    from format_item_local [OF this, of R u]
    have l: "snd (format_item R w1 m u) = snd (format_item R w m u)" by simp
    from Cons.prems(2) [rule_format, of m u] mem show ?thesis unfolding l by simp
  qed
  then have "\<forall>m u. (m, u) \<in> set kvs \<longrightarrow> (\<exists>t. snd (format_item R w1 m u) = Inr t)" by blast
  from Cons.IH [OF d this, of "ce(n \<mapsto> s)"]
  obtain w2 ce2 where "format_items R w1 kvs (ce(n \<mapsto> s)) = (w2, Inr ce2)" by blast
  with kv i show ?case by simp
qed

lemma fill_messages_all2:
  "fill_messages w ce ns = Inr ts \<Longrightarrow>
     list_all2 (\<lambda>n t. \<exists>m c. messages w n = Some m \<and> ce n = Some c \<and> format_message 0 m c = Inr t) ns ts"
  by (induction ns arbitrary: ts) (auto split: option.splits sum.splits)

subsection \<open>C3: missing fields\<close>

lemma format_items_misfit:
  assumes "wf w" "fst ` set kvs \<subseteq> set (names w)" "(n, v) \<in> set kvs" "\<not> value_fits R w n v"
  shows "\<exists>w'. format_items R w kvs ce = (w', Inl HostFormatError)"
  using assms
proof (induction kvs arbitrary: w ce)
  case Nil
  then show ?case by simp
next
  case (Cons kv kvs)
  obtain m u where kv: "kv = (m, u)" by (cases kv)
  from Cons.prems(2) kv have reg: "m \<in> set (names w)" by simp
  show ?case
  proof (cases "value_fits R w m u")
    case False
    from format_item_fits(2) [OF Cons.prems(1) reg False] kv show ?thesis by simp
  next
    case True
    from format_item_fits(1) [OF Cons.prems(1) reg True]
    obtain w1 s where i: "format_item R w m u = (w1, Inr s)" by blast
    have wf1: "wf w1" using format_item_wf [OF Cons.prems(1) i] .
    have fr: "names w1 = names w" "bases w1 = bases w" "decimals w1 = decimals w"
      using format_item_frame [OF i] by simp_all
    have vf: "value_fits R w1 n v = value_fits R w n v"
      using fr(2,3) by (rule value_fits_frame)
    from True Cons.prems(3,4) kv have mem: "(n, v) \<in> set kvs" by auto
    from Cons.prems(2) fr(1) have sub: "fst ` set kvs \<subseteq> set (names w1)" by simp
    from Cons.prems(4) vf have "\<not> value_fits R w1 n v" by simp
    from Cons.IH [OF wf1 sub mem this, of "ce(m \<mapsto> s)"]
    obtain w2 where "format_items R w1 kvs (ce(m \<mapsto> s)) = (w2, Inl HostFormatError)" by blast
    with kv i show ?thesis by simp
  qed
qed

lemma format_missing:
  assumes "wf w" "fst ` set kwargs \<subset> set (names w)" "\<forall>(n, v) \<in> set kwargs. value_fits R w n v"
  shows "snd (format R w kwargs) = Inl (MissingFields (set (names w) - fst ` set kwargs))"
proof -
  from assms(2,3) have "\<forall>(n, v) \<in> set kwargs. n \<in> set (names w) \<and> value_fits R w n v"
    by auto
  from format_items_fits [OF assms(1) this, of Map.empty]
  obtain w' ce' where loop: "format_items R w kwargs Map.empty = (w', Inr ce')" by blast
  have keys: "ce' m = None \<longleftrightarrow> m \<notin> fst ` set kwargs" for m
    using format_items_keys [OF loop, of m] by simp
  have nm: "names w' = names w" using format_items_frame [OF loop] by simp
  from assms(2) obtain m where "m \<in> set (names w)" "m \<notin> fst ` set kwargs" by auto
  then have ex: "list_ex (\<lambda>name. ce' name = None) (names w')"
    using keys nm by (auto simp: list_ex_iff)
  have "set (filter (\<lambda>name. ce' name = None) (names w')) = set (names w) - fst ` set kwargs"
    using keys nm by auto
  with loop ex show ?thesis by (simp add: format_def)
qed

lemma format_not_missing:
  assumes "set (names w) \<subseteq> fst ` set kwargs"
  shows "snd (format R w kwargs) \<noteq> Inl (MissingFields ms)"
proof (cases "format_items R w kwargs Map.empty")
  case (Pair w' r)
  show ?thesis
  proof (cases r)
    case (Inl e)
    with Pair format_items_error [of R w kwargs Map.empty w' e]
    have "e \<noteq> MissingFields ms" by auto
    with Pair Inl show ?thesis by (simp add: format_def)
  next
    case (Inr ce')
    have keys: "ce' m = None \<longleftrightarrow> m \<notin> fst ` set kwargs" for m
      using format_items_keys [OF Pair [unfolded Inr], of m] by simp
    have nm: "names w' = names w" using format_items_frame [OF Pair] by simp
    have no: "\<not> list_ex (\<lambda>name. ce' name = None) (names w')"
      using keys nm assms by (auto simp: list_ex_iff)
    show ?thesis
    proof (cases "fill_messages w' ce' (names w')")
      case (Inl e)
      with fill_messages_error [of w' ce' "names w'" e] have "e \<noteq> MissingFields ms" by auto
      with Pair Inr no Inl show ?thesis by (simp add: format_def)
    next
      case (Inr ts)
      with Pair \<open>r = Inr ce'\<close> no show ?thesis by (simp add: format_def)
    qed
  qed
qed

lemma format_misfit:
  assumes "wf w" "fst ` set kwargs \<subseteq> set (names w)" "(n, v) \<in> set kwargs" "\<not> value_fits R w n v"
  shows "snd (format R w kwargs) = Inl HostFormatError"
proof -
  from format_items_misfit [OF assms, of Map.empty]
  obtain w' where "format_items R w kwargs Map.empty = (w', Inl HostFormatError)" by blast
  then show ?thesis by (simp add: format_def)
qed

lemma test_names: "set (names test_writer) = {''mumbo'', ''jumbo''}"
  by (simp add: test_writer_def)

lemma test_float_call:
  "snd (format no_floats test_writer [(''jumbo'', FloatV ())]) = Inl HostFormatError"
  by code_simp

text \<open>
  C3, as stated, fails: a call that supplies a strict subset of the registered names
  does not always fail with \<open>MissingFields\<close>. The loop renders the supplied values
  before the check, and a float supplied for a field of type \<^verbatim>\<open>d\<close> makes the host's
  \<^verbatim>\<open>str.format\<close> raise there.
\<close>

theorem missing_fields_counterexample:
  "fst ` set [(''jumbo'', FloatV () :: unit pyval)] \<subset> set (names test_writer)
   \<and> snd (format no_floats test_writer [(''jumbo'', FloatV ())]) = Inl HostFormatError
   \<and> snd (format no_floats test_writer [(''jumbo'', FloatV ())]) \<noteq> Inl (MissingFields {''mumbo''})"
  using test_float_call by (auto simp: test_names)

text \<open>
  C3, amended. When the supplied names are a strict subset of the registered names and
  every supplied value can be rendered under its field's type, \<open>format\<close> fails with
  \<open>MissingFields\<close> (a \<^verbatim>\<open>ValueError\<close>), and the error names exactly the registered
  names that were not supplied. When the supplied names are registered and a supplied
  value cannot be rendered, the call fails in the host's formatting instead. A call
  that supplies every registered name never fails with \<open>MissingFields\<close>.
\<close>

theorem format_missing_fields:
  "(wf w \<and> fst ` set kwargs \<subset> set (names w) \<and> (\<forall>(n, v) \<in> set kwargs. value_fits R w n v) \<longrightarrow>
      snd (format R w kwargs) = Inl (MissingFields (set (names w) - fst ` set kwargs)))
   \<and> exception_of (MissingFields ms) = ValueError
   \<and> (wf w \<and> fst ` set kwargs \<subseteq> set (names w) \<and> (n, v) \<in> set kwargs \<and> \<not> value_fits R w n v \<longrightarrow>
        snd (format R w kwargs) = Inl HostFormatError)
   \<and> (set (names w) \<subseteq> fst ` set kwargs \<longrightarrow> snd (format R w kwargs) \<noteq> Inl (MissingFields ms))"
  using format_missing [of w kwargs R] format_misfit [of w kwargs n v R]
    format_not_missing [of w kwargs R ms]
  by simp

lemma test_fits: "value_fits no_floats test_writer ''jumbo'' (IntV 654)"
  "\<not> value_fits no_floats test_writer ''jumbo'' (FloatV ())"
  by (simp_all add: value_fits_def test_writer_def)

lemma test_full_call:
  "snd (format no_floats test_writer [(''mumbo'', IntV 0), (''jumbo'', IntV 0)])
     = Inr ''long:         0--short:0''"
  by code_simp

theorem format_missing_fields_witness:
  "wf test_writer
   \<and> fst ` set [(''jumbo'', IntV 654 :: unit pyval)] \<subset> set (names test_writer)
   \<and> value_fits no_floats test_writer ''jumbo'' (IntV 654)
   \<and> snd (format no_floats test_writer [(''jumbo'', IntV 654)])
       = Inl (MissingFields (set (names test_writer) - fst ` set [(''jumbo'', IntV 654 :: unit pyval)]))
   \<and> set (names test_writer) - fst ` set [(''jumbo'', IntV 654 :: unit pyval)] = {''mumbo''}
   \<and> \<not> value_fits no_floats test_writer ''jumbo'' (FloatV ())
   \<and> snd (format no_floats test_writer [(''jumbo'', FloatV ())]) = Inl HostFormatError
   \<and> set (names test_writer) \<subseteq> fst ` set [(''mumbo'', IntV 0 :: unit pyval), (''jumbo'', IntV 0)]
   \<and> snd (format no_floats test_writer [(''mumbo'', IntV 0), (''jumbo'', IntV 0)])
       \<noteq> Inl (MissingFields {''mumbo''})"
  using format_missing_fields [of test_writer "[(''jumbo'', IntV 654)]" no_floats "{''mumbo''}"
        "''jumbo''" "IntV 654"]
    format_missing_fields [of test_writer "[(''jumbo'', FloatV ())]" no_floats "{''mumbo''}"
        "''jumbo''" "FloatV ()"]
    format_missing_fields [of test_writer "[(''mumbo'', IntV 0), (''jumbo'', IntV 0)]" no_floats
        "{''mumbo''}" "''jumbo''" "IntV 0"]
    wf_test_writer test_fits
  by (auto simp: test_names)

subsection \<open>C4: names that were never registered\<close>

lemma format_unknown_fails:
  assumes "wf w" "(n, v) \<in> set kwargs" "n \<notin> set (names w)"
  shows "\<exists>e. snd (format R w kwargs) = Inl e"
proof -
  from format_items_unknown [OF assms, of R Map.empty]
  obtain w' e where "format_items R w kwargs Map.empty = (w', Inl e)" by blast
  then have "snd (format R w kwargs) = Inl e" by (simp add: format_def)
  then show ?thesis by blast
qed

lemma format_first_unknown:
  assumes "wf w" "n \<notin> set (names w)"
    and pre: "\<forall>(m, u) \<in> set pre. m \<in> set (names w) \<and> value_fits R w m u"
  shows "snd (format R w (pre @ (n, v) # post)) = Inl (UnknownName n)"
proof -
  from format_items_fits [OF assms(1) pre, of Map.empty]
  obtain w1 ce1 where loop: "format_items R w pre Map.empty = (w1, Inr ce1)" by blast
  have wf1: "wf w1" using format_items_wf [OF assms(1) loop] .
  have "names w1 = names w" using format_items_frame [OF loop] by simp
  with assms(2) wf1 have "bases w1 n = None" by (auto simp: wf_def)
  then have "format_item R w1 n v = (w1, Inl (UnknownName n))" by (rule format_item_unknown)
  then have "format_items R w1 ((n, v) # post) ce1 = (w1, Inl (UnknownName n))" by simp
  with loop have "format_items R w (pre @ (n, v) # post) Map.empty = (w1, Inl (UnknownName n))"
    by (simp add: format_items_append)
  then show ?thesis by (simp add: format_def)
qed

lemma test_extra_call:
  "snd (format no_floats test_writer [(''mumbo'', IntV 0), (''jumbo'', IntV 0), (''zz'', IntV 1)])
     = Inl (UnknownName ''zz'')"
  by code_simp

text \<open>
  C4, as stated, fails: a call that supplies every registered name and one more name
  does not succeed. The loop looks the extra name up in \<^verbatim>\<open>self.bases\<close>, which raises
  \<^verbatim>\<open>KeyError\<close>.
\<close>

theorem extra_names_counterexample:
  "set (names test_writer) \<subseteq> fst ` set [(''mumbo'', IntV 0 :: unit pyval), (''jumbo'', IntV 0), (''zz'', IntV 1)]
   \<and> ''zz'' \<notin> set (names test_writer)
   \<and> snd (format no_floats test_writer [(''mumbo'', IntV 0), (''jumbo'', IntV 0), (''zz'', IntV 1)])
       = Inl (UnknownName ''zz'')
   \<and> exception_of (UnknownName ''zz'') = KeyError"
  using test_extra_call by (auto simp: test_names)

text \<open>
  C4, amended. A call of \<open>format\<close> that supplies a name that was never registered
  fails, whether or not it supplies the registered names: extra names are not ignored.
  When the values before the first such name are for registered names and can be
  rendered, the failure is the \<^verbatim>\<open>KeyError\<close> of the lookup of that name.
\<close>

theorem format_unknown_name:
  "(wf w \<and> (n, v) \<in> set kwargs \<and> n \<notin> set (names w) \<longrightarrow> (\<exists>e. snd (format R w kwargs) = Inl e))
   \<and> (wf w \<and> n \<notin> set (names w)
        \<and> (\<forall>(m, u) \<in> set pre. m \<in> set (names w) \<and> value_fits R w m u) \<longrightarrow>
          snd (format R w (pre @ (n, v) # post)) = Inl (UnknownName n))
   \<and> exception_of (UnknownName n) = KeyError"
  using format_unknown_fails [of w n v kwargs R] format_first_unknown [of w n pre R v post]
  by simp

lemma test_fits_zero:
  "value_fits no_floats test_writer ''mumbo'' (IntV 0)"
  "value_fits no_floats test_writer ''jumbo'' (IntV 0)"
  by (simp_all add: value_fits_def test_writer_def)

theorem format_unknown_name_witness:
  "wf test_writer
   \<and> (''zz'', IntV 1) \<in> set [(''zz'', IntV 1 :: unit pyval), (''jumbo'', IntV 0)]
   \<and> ''zz'' \<notin> set (names test_writer)
   \<and> (\<exists>e. snd (format no_floats test_writer [(''zz'', IntV 1), (''jumbo'', IntV 0)]) = Inl e)
   \<and> value_fits no_floats test_writer ''mumbo'' (IntV 0)
   \<and> value_fits no_floats test_writer ''jumbo'' (IntV 0)
   \<and> snd (format no_floats test_writer
             ([(''mumbo'', IntV 0), (''jumbo'', IntV 0)] @ (''zz'', IntV 1) # []))
       = Inl (UnknownName ''zz'')"
  using format_unknown_name [of test_writer "''zz''" "IntV 1" "[(''zz'', IntV 1), (''jumbo'', IntV 0)]"
        no_floats "[(''mumbo'', IntV 0), (''jumbo'', IntV 0)]" "[]"]
    wf_test_writer test_fits_zero
  by (auto simp: test_names)

subsection \<open>C6: the order of the output\<close>

lemma format_success:
  assumes "format R w kwargs = (w', Inr out)"
  obtains ce' ts where "format_items R w kwargs Map.empty = (w', Inr ce')"
    "fill_messages w' ce' (names w') = Inr ts" "out = join (sep w') ts"
proof -
  obtain w1 r where loop: "format_items R w kwargs Map.empty = (w1, r)"
    by (cases "format_items R w kwargs Map.empty")
  from assms loop obtain ce' where r: "r = Inr ce'"
    by (cases r) (simp_all add: format_def)
  from assms loop r obtain ts where "w1 = w'" "fill_messages w1 ce' (names w1) = Inr ts"
    "out = join (sep w1) ts"
    by (cases "fill_messages w1 ce' (names w1)") (auto simp: format_def split: if_splits)
  with loop r that show ?thesis by blast
qed

lemma format_join:
  assumes d: "distinct (map fst kwargs)" and f: "format R w kwargs = (w', Inr out)"
  shows "\<exists>ts. list_all2 (\<lambda>n t. \<exists>v. map_of kwargs n = Some v \<and> field_text R w n v = Inr t) (names w) ts
              \<and> out = join (sep w) ts"
proof -
  from format_success [OF f]
  obtain ce' ts where loop: "format_items R w kwargs Map.empty = (w', Inr ce')"
    and fill: "fill_messages w' ce' (names w') = Inr ts" and out: "out = join (sep w') ts"
    by blast
  note fr = format_items_frame [OF loop]
  note D = format_items_distinct [OF d loop]
  note D1 = D [THEN conjunct1, rule_format] and D2 = D [THEN conjunct2, rule_format]
  have step: "\<exists>v. map_of kwargs n = Some v \<and> field_text R w n v = Inr t"
    if q: "\<exists>m c. messages w' n = Some m \<and> ce' n = Some c \<and> format_message 0 m c = Inr t" for n t
  proof -
    from q obtain m c where m: "messages w' n = Some m" and c: "ce' n = Some c"
      and t: "format_message 0 m c = Inr t" by blast
    have "n \<in> fst ` set kwargs"
    proof (rule ccontr)
      assume "n \<notin> fst ` set kwargs"
      from D2 [OF this] c show False by simp
    qed
    then obtain v where mem: "(n, v) \<in> set kwargs" by auto
    from D1 [OF mem] c have s: "snd (format_item R w n v) = Inr c" by auto
    have mo: "map_of kwargs n = Some v" using d mem by (rule map_of_is_SomeI)
    from fr m have "messages w n = Some m" by simp
    with s t have "field_text R w n v = Inr t" by (simp add: field_text_def)
    with mo show ?thesis by blast
  qed
  from fill_messages_all2 [OF fill]
  have "list_all2 (\<lambda>n t. \<exists>v. map_of kwargs n = Some v \<and> field_text R w n v = Inr t) (names w') ts"
    by (rule list_all2_mono) (rule step)
  with fr out show ?thesis by auto
qed

lemma format_any_order:
  assumes d: "distinct (map fst kwargs)" and f: "format R w kwargs = (w', Inr out)"
    and d': "distinct (map fst kwargs')" and same: "set kwargs' = set kwargs"
  shows "format R w kwargs' = (w', Inr out)"
proof -
  from format_success [OF f]
  obtain ce' ts where loop: "format_items R w kwargs Map.empty = (w', Inr ce')"
    and fill: "fill_messages w' ce' (names w') = Inr ts" and out: "out = join (sep w') ts"
    by blast
  note fr = format_items_frame [OF loop]
  note D = format_items_distinct [OF d loop]
  note D1 = D [THEN conjunct1, rule_format] and D2 = D [THEN conjunct2, rule_format]
  have "\<forall>n v. (n, v) \<in> set kwargs' \<longrightarrow> (\<exists>s. snd (format_item R w n v) = Inr s)"
    using D1 same by blast
  from format_items_succeeds [OF d' this, of Map.empty]
  obtain w2 ce2 where loop2: "format_items R w kwargs' Map.empty = (w2, Inr ce2)" by blast
  note fr2 = format_items_frame [OF loop2]
  note E = format_items_distinct [OF d' loop2]
  note E1 = E [THEN conjunct1, rule_format] and E2 = E [THEN conjunct2, rule_format]
  have pointwise: "ce2 m = ce' m \<and> pad_lengths w2 m = pad_lengths w' m" for m
  proof (cases "m \<in> fst ` set kwargs")
    case True
    then obtain v where mem: "(m, v) \<in> set kwargs" by auto
    then have mem2: "(m, v) \<in> set kwargs'" using same by simp
    from D1 [OF mem] E1 [OF mem2] show ?thesis by auto
  next
    case False
    then have "m \<notin> fst ` set kwargs'" using same by simp
    from D2 [OF False] E2 [OF this] show ?thesis by simp
  qed
  have ce: "ce2 = ce'" using pointwise by (intro ext) simp
  have "pad_lengths w2 = pad_lengths w'" using pointwise by (intro ext) simp
  with fr fr2 have w: "w2 = w'" by (intro iterwriter.equality) simp_all
  from f loop have "format R w kwargs = (case (w', Inr ce' :: error + (string \<rightharpoonup> string)) of
        (w', Inl e) \<Rightarrow> (w', Inl e)
      | (w', Inr composed_elements) \<Rightarrow>
          if list_ex (\<lambda>name. composed_elements name = None) (names w') then
            (w', Inl (MissingFields
                       (set (filter (\<lambda>name. composed_elements name = None) (names w')))))
          else
            (case fill_messages w' composed_elements (names w') of
               Inl e \<Rightarrow> (w', Inl e)
             | Inr ts \<Rightarrow> (w', Inr (join (sep w') ts))))"
    by (simp only: format_def)
  moreover from loop2 ce w have "format R w kwargs' = (case (w', Inr ce' :: error + (string \<rightharpoonup> string)) of
        (w', Inl e) \<Rightarrow> (w', Inl e)
      | (w', Inr composed_elements) \<Rightarrow>
          if list_ex (\<lambda>name. composed_elements name = None) (names w') then
            (w', Inl (MissingFields
                       (set (filter (\<lambda>name. composed_elements name = None) (names w')))))
          else
            (case fill_messages w' composed_elements (names w') of
               Inl e \<Rightarrow> (w', Inl e)
             | Inr ts \<Rightarrow> (w', Inr (join (sep w') ts))))"
    by (simp only: format_def)
  ultimately have "format R w kwargs' = format R w kwargs" by simp
  with f show ?thesis by simp
qed

text \<open>
  C6. When \<open>format\<close> succeeds, its output is the field texts joined with the separator
  in the order of registration, whatever the order of the names in the values: the
  text at each position is the stored message of the name registered at that position,
  filled with the rendered value supplied for that name, and the same values in any
  other order give the same output and leave the same formatter. (The values are a
  dictionary: no name occurs twice.)
\<close>

theorem format_join_order:
  assumes "distinct (map fst kwargs)" "format R w kwargs = (w', Inr out)"
  shows "(\<exists>ts. list_all2 (\<lambda>n t. \<exists>v. map_of kwargs n = Some v \<and> field_text R w n v = Inr t)
                  (names w) ts
              \<and> out = join (sep w) ts)
         \<and> (\<forall>kwargs'. distinct (map fst kwargs') \<and> set kwargs' = set kwargs \<longrightarrow>
               format R w kwargs' = (w', Inr out))"
  using format_join [OF assms] format_any_order [OF assms] by blast

lemma test_swapped_call:
  "snd (format no_floats test_writer [(''jumbo'', IntV 0), (''mumbo'', IntV 0)])
     = Inr ''long:         0--short:0''"
  by code_simp

theorem format_join_order_witness:
  "distinct (map fst [(''jumbo'', IntV 0 :: unit pyval), (''mumbo'', IntV 0)])
   \<and> format no_floats test_writer [(''jumbo'', IntV 0), (''mumbo'', IntV 0)]
       = (fst (format no_floats test_writer [(''jumbo'', IntV 0), (''mumbo'', IntV 0)]),
          Inr ''long:         0--short:0'')
   \<and> (\<exists>ts. list_all2 (\<lambda>n t. \<exists>v. map_of [(''jumbo'', IntV 0), (''mumbo'', IntV 0)] n = Some v
                                 \<and> field_text no_floats test_writer n v = Inr t)
                  (names test_writer) ts
            \<and> ''long:         0--short:0'' = join (sep test_writer) ts)
   \<and> format no_floats test_writer [(''mumbo'', IntV 0), (''jumbo'', IntV 0)]
       = (fst (format no_floats test_writer [(''jumbo'', IntV 0), (''mumbo'', IntV 0)]),
          Inr ''long:         0--short:0'')"
proof -
  let ?kw = "[(''jumbo'', IntV 0 :: unit pyval), (''mumbo'', IntV 0)]"
  let ?w' = "fst (format no_floats test_writer ?kw)"
  have d: "distinct (map fst ?kw)" by simp
  have f: "format no_floats test_writer ?kw = (?w', Inr ''long:         0--short:0'')"
    using test_swapped_call by (simp add: prod_eq_iff)
  have d': "distinct (map fst [(''mumbo'', IntV 0 :: unit pyval), (''jumbo'', IntV 0)])
            \<and> set [(''mumbo'', IntV 0 :: unit pyval), (''jumbo'', IntV 0)] = set ?kw"
    by auto
  from format_join_order [OF d f] d' d f show ?thesis by blast
qed

end
